(* ===== verification/Prelude.thy ===== *)
theory Prelude
  imports Main "HOL-Library.Word" "HOL-Library.Monad_Syntax"
begin

text \<open>
  What the components share: the names of the machine integers, the C memory objects
  (a caller's buffer is the list of its bytes) with bounds-checked access, and the
  lemma collections.

  An operation of the model returns an \<open>option\<close>. \<open>None\<close> is "the C program has no
  defined result": an access outside the object a pointer points to, a call through a
  NULL callback, or a loop that never ends (the loops are \<open>partial_function (option)\<close>).
  A theorem that an operation returns \<open>Some\<close> is therefore a memory-safety and a
  termination theorem at once.
\<close>

unbundle bit_operations_syntax

type_synonym u8 = "8 word"
type_synonym u16 = "16 word"
type_synonym u32 = "32 word"

named_theorems mem_simps \<open>bounds-checked access to a memory object\<close>

section \<open>Memory objects\<close>

text \<open>\<open>b[i]\<close> as a value and as an assignment.\<close>

definition mem_read :: "u8 list \<Rightarrow> nat \<Rightarrow> u8 option" where
  "mem_read b i = (if i < length b then Some (b ! i) else None)"

definition mem_write :: "u8 list \<Rightarrow> nat \<Rightarrow> u8 \<Rightarrow> u8 list option" where
  "mem_write b i x = (if i < length b then Some (b[i := x]) else None)"

text \<open>\<open>memcpy\<close> out of and into an object, and \<open>memset\<close>.\<close>

definition mem_get :: "u8 list \<Rightarrow> nat \<Rightarrow> nat \<Rightarrow> u8 list option" where
  "mem_get b i n = (if i + n \<le> length b then Some (take n (drop i b)) else None)"

definition mem_put :: "u8 list \<Rightarrow> nat \<Rightarrow> u8 list \<Rightarrow> u8 list option" where
  "mem_put b i xs =
     (if i + length xs \<le> length b
      then Some (take i b @ xs @ drop (i + length xs) b) else None)"

definition mem_set :: "u8 list \<Rightarrow> nat \<Rightarrow> u8 \<Rightarrow> nat \<Rightarrow> u8 list option" where
  "mem_set b i x n = mem_put b i (replicate n x)"

lemma mem_read_Some [mem_simps]: "i < length b \<Longrightarrow> mem_read b i = Some (b ! i)"
  by (simp add: mem_read_def)

lemma mem_write_Some [mem_simps]: "i < length b \<Longrightarrow> mem_write b i x = Some (b[i := x])"
  by (simp add: mem_write_def)

lemma mem_get_Some [mem_simps]:
  "i + n \<le> length b \<Longrightarrow> mem_get b i n = Some (take n (drop i b))"
  by (simp add: mem_get_def)

lemma mem_put_Some [mem_simps]:
  "i + length xs \<le> length b \<Longrightarrow>
    mem_put b i xs = Some (take i b @ xs @ drop (i + length xs) b)"
  by (simp add: mem_put_def)

lemma mem_write_length: "mem_write b i x = Some b' \<Longrightarrow> length b' = length b"
  by (auto simp: mem_write_def split: if_splits)

lemma mem_put_length: "mem_put b i xs = Some b' \<Longrightarrow> length b' = length b"
  by (auto simp: mem_put_def split: if_splits)

text \<open>What was stored is what is read back.\<close>

lemma mem_get_mem_put:
  "mem_put b i xs = Some b' \<Longrightarrow> mem_get b' i (length xs) = Some xs"
  by (auto simp: mem_put_def mem_get_def min_def split: if_splits)

text \<open>An object filled from the left: \<open>pre\<close> is written, \<open>old\<close> is still to be written.\<close>

lemma mem_write_next:
  "i = length pre \<Longrightarrow> old \<noteq> [] \<Longrightarrow> mem_write (pre @ old) i x = Some (pre @ x # drop 1 old)"
  by (cases old) (auto simp: mem_write_def)

lemma mem_put_next:
  "i = length pre \<Longrightarrow> length xs \<le> length old \<Longrightarrow>
    mem_put (pre @ old) i xs = Some (pre @ xs @ drop (length xs) old)"
  by (simp add: mem_put_def)

lemma mem_get_mid:
  "i = length pre \<Longrightarrow> n = length mid \<Longrightarrow> mem_get (pre @ mid @ rest) i n = Some mid"
  by (simp add: mem_get_def)

section \<open>Words\<close>

text \<open>Sizes are compared as natural numbers: \<open>int (unat x)\<close> is not folded into \<open>uint x\<close>.\<close>

declare of_nat_unat [simp del]

lemma unat_u8_less: "unat (x :: u8) < 256"
  using unsigned_less [where 'a = nat, of x] by simp

lemma word_xor_eq_zero: "(a :: 'a :: len word) XOR b = 0 \<longleftrightarrow> a = b"
proof
  assume "a XOR b = 0"
  then have "(a XOR b) XOR b = b" by simp
  then show "a = b" by (simp only: xor.assoc xor_self_eq xor.right_neutral)
qed simp

lemma word_xor_cancel_left: "(a :: 'a :: len word) XOR b = a XOR c \<longleftrightarrow> b = c"
proof
  assume "a XOR b = a XOR c"
  then have "a XOR (a XOR b) = a XOR (a XOR c)" by simp
  then show "b = c" by (simp only: xor.assoc [symmetric] xor_self_eq xor.left_neutral)
qed simp

lemma word_xor_cancel_right: "(b :: 'a :: len word) XOR a = c XOR a \<longleftrightarrow> b = c"
  using word_xor_cancel_left [of a b c] by (simp only: xor.commute)

text \<open>
  \<open>int32_t\<close> values are kept as their 32 bits and read with \<open>sint\<close>; \<open>size_of_s32\<close> is the
  conversion of an \<open>int32_t\<close> to the \<open>size_t\<close> of a 64-bit host, as in a call of \<open>memcpy\<close>.
\<close>

definition size_of_s32 :: "u32 \<Rightarrow> nat" where
  "size_of_s32 x = nat (sint x mod 2 ^ 64)"

lemma sint_u32: "sint (x :: u32) = (if unat x < 2 ^ 31 then int (unat x) else int (unat x) - 2 ^ 32)"
proof -
  have less: "unat x < 2 ^ 32" using unsigned_less [where 'a = nat, of x] by simp
  have "sint x = (uint x + 2 ^ 31) mod 2 ^ 32 - 2 ^ 31"
    using int_word_sint [of "uint x", where 'a = 32] by simp
  also have "\<dots> = (int (unat x) + 2 ^ 31) mod 2 ^ 32 - 2 ^ 31"
    by (simp add: uint_nat)
  also have "\<dots> = (if unat x < 2 ^ 31 then int (unat x) else int (unat x) - 2 ^ 32)"
  proof (cases "unat x < 2 ^ 31")
    case False
    then have "(int (unat x) + 2 ^ 31) mod 2 ^ 32 = int (unat x) + 2 ^ 31 - 2 ^ 32"
      using less by (subst mod_pos_geq) (simp_all add: mod_pos_pos_trivial)
    with False show ?thesis by simp
  qed (simp add: mod_pos_pos_trivial)
  finally show ?thesis .
qed

lemma size_of_s32_small: "unat x < 2 ^ 31 \<Longrightarrow> size_of_s32 x = unat x"
  by (simp add: size_of_s32_def sint_u32 mod_pos_pos_trivial)

lemma unat_u32_add: "unat a + unat b < 2 ^ 32 \<Longrightarrow> unat (a + b :: u32) = unat a + unat b"
  by (simp add: unat_word_ariths)

lemma unat_u32_sub: "unat b \<le> unat a \<Longrightarrow> unat (a - b :: u32) = unat a - unat b"
  by (simp add: unat_sub word_le_nat_alt)

lemma unat_u32_of_nat: "n < 2 ^ 32 \<Longrightarrow> unat (word_of_nat n :: u32) = n"
  by (simp add: unat_of_nat)

lemma unat_u32_less: "unat (x :: u32) < 4294967296"
  using unsigned_less [where 'a = nat, of x] by simp

section \<open>Lists\<close>

lemma take_take_drop: "take a xs @ take b (drop a xs) @ drop (a + b) xs = xs"
  by (simp add: add.commute [of a b] del: drop_drop flip: drop_drop)

end
