(* ===== verification/Crc16.thy ===== *)
theory Crc16
  imports Prelude
begin

text \<open>
  \<open>src/crc16.c\<close>, \<open>include/crc16.h\<close>: the 16-bit CRC, a table of 256 remainders built
  once by \<open>crc16_init\<close> and a byte-wise loop over the data. The lemmas show that the
  table-driven loop computes the bit-serial shift register of the same polynomial, that a
  message followed by its CRC leaves the register at zero, and that the CRC separates any two
  messages of one length that differ inside two neighbouring bytes.
\<close>

section \<open>The code\<close>

record crc16_context =
  crctab :: "u16 list"
  polynome :: u16

text \<open>
  The body of the inner loop: \<open>crc\<close> is a \<open>uint32_t\<close>, \<open>highbit\<close> a \<open>uint16_t\<close>; bits
  shifted beyond 16 stay in \<open>crc\<close> until the final mask.
\<close>

definition crc16_init_bit :: "u16 \<Rightarrow> u32 \<Rightarrow> u32" where
  "crc16_init_bit poly crc =
     (let highbit = (ucast (crc AND 0x8000) :: u16);
          crc = push_bit 1 crc
      in if highbit \<noteq> 0 then crc XOR ucast poly else crc)"

text \<open>The body of the outer loop: one entry of the table.\<close>

definition crc16_init_entry :: "u16 \<Rightarrow> u32 \<Rightarrow> u16" where
  "crc16_init_entry poly i = ucast ((crc16_init_bit poly ^^ 8) (push_bit 8 i) AND 0xFFFF)"

definition crc16_init :: "crc16_context \<Rightarrow> u16 \<Rightarrow> crc16_context" where
  "crc16_init ctx poly =
     ctx\<lparr>polynome := poly,
         crctab := map (\<lambda>i. crc16_init_entry poly (word_of_nat i)) [0..<256]\<rparr>"

text \<open>
  \<open>crc16_doCalcul\<close>: \<open>data\<close> is the \<open>len\<close> bytes the C function reads. The index \<open>k\<close> is
  masked to a byte, so \<open>crctab[k]\<close> is inside the array of 256.
\<close>

definition crc16_step :: "crc16_context \<Rightarrow> u16 \<Rightarrow> u8 \<Rightarrow> u16" where
  "crc16_step ctx crc d =
     (let k = (drop_bit 8 crc XOR ucast d) AND 0xFF
      in push_bit 8 crc XOR crctab ctx ! unat k)"

definition crc16_doCalcul :: "crc16_context \<Rightarrow> u8 list \<Rightarrow> u16 \<Rightarrow> u16 \<Rightarrow> u16" where
  "crc16_doCalcul ctx data initValue xorFinal =
     foldl (crc16_step ctx) initValue data XOR xorFinal"

section \<open>The shift register\<close>

text \<open>The reference: the message bits enter a 16-bit register, the most significant first.\<close>

definition reg_shift :: "u16 \<Rightarrow> u16 \<Rightarrow> u16" where
  "reg_shift poly r = push_bit 1 r XOR (if bit r 15 then poly else 0)"

definition reg_feed :: "u16 \<Rightarrow> u16 \<Rightarrow> bool \<Rightarrow> u16" where
  "reg_feed poly r b = push_bit 1 r XOR (if bit r 15 \<noteq> b then poly else 0)"

definition byte_bits :: "u8 \<Rightarrow> bool list" where
  "byte_bits d = map (bit d) (rev [0..<8])"

definition crc_serial :: "u16 \<Rightarrow> u16 \<Rightarrow> u8 list \<Rightarrow> u16" where
  "crc_serial poly r data = foldl (reg_feed poly) r (concat (map byte_bits data))"

abbreviation reg_shift8 :: "u16 \<Rightarrow> u16 \<Rightarrow> u16" where
  "reg_shift8 poly \<equiv> reg_shift poly ^^ 8"

lemma reg_shift_xor: "reg_shift poly (a XOR b) = reg_shift poly a XOR reg_shift poly b"
  by (auto simp: reg_shift_def bit_xor_iff push_bit_xor xor.assoc xor.commute xor.left_commute)

lemma reg_shift_funpow_xor:
  "(reg_shift poly ^^ n) (a XOR b) = (reg_shift poly ^^ n) a XOR (reg_shift poly ^^ n) b"
  by (induction n) (simp_all add: reg_shift_xor)

lemma reg_shift_zero [simp]: "reg_shift poly 0 = 0"
  by (simp add: reg_shift_def)

lemma reg_shift_funpow_zero [simp]: "(reg_shift poly ^^ n) 0 = 0"
  by (induction n) simp_all

lemma byte_not_bit [simp]: "8 \<le> i \<Longrightarrow> \<not> bit (ucast (d :: u8) :: u16) i"
  by (auto simp: bit_ucast_iff dest: bit_imp_le_length)

text \<open>A register whose upper byte is empty moves up unchanged for eight steps.\<close>

lemma reg_shift_no_top: "\<not> bit r 15 \<Longrightarrow> reg_shift poly r = push_bit 1 r"
  unfolding reg_shift_def by (simp only: if_False xor.right_neutral)

lemma reg_shift_low:
  assumes "\<And>i. 8 \<le> i \<Longrightarrow> \<not> bit r i" and "n \<le> 8"
  shows "(reg_shift poly ^^ n) r = push_bit n r"
  using assms(2)
proof (induction n)
  case (Suc n)
  then have "\<not> bit (push_bit n r) 15"
    using assms(1) [of "15 - n"] by (simp add: bit_push_bit_iff)
  with Suc have "(reg_shift poly ^^ Suc n) r = push_bit 1 (push_bit n r)"
    by (simp del: One_nat_def push_bit_push_bit add: reg_shift_no_top)
  then show ?case by (simp only: push_bit_push_bit plus_1_eq_Suc)
qed simp

lemma reg_shift8_byte: "reg_shift8 poly (ucast (d :: u8)) = push_bit 8 (ucast d)"
  by (rule reg_shift_low) simp_all

text \<open>One bit of the message is one shift of a register with that bit folded into the top.\<close>

lemma reg_feed_shift: "reg_feed poly r b = reg_shift poly (r XOR push_bit 15 (of_bool b))"
proof -
  have "push_bit 1 (r XOR push_bit 15 (of_bool b)) = push_bit 1 r"
    by (rule bit_word_eqI) (auto simp: bit_simps)
  moreover have "bit (r XOR push_bit 15 (of_bool b)) 15 \<longleftrightarrow> bit r 15 \<noteq> b"
    by (auto simp: bit_simps)
  ultimately show ?thesis by (simp only: reg_feed_def reg_shift_def)
qed

text \<open>The bits of a message aligned with the top of the register.\<close>

fun top_bits :: "bool list \<Rightarrow> u16" where
  "top_bits [] = 0"
| "top_bits (b # bs) = push_bit 15 (of_bool b) XOR drop_bit 1 (top_bits bs)"

lemma bit_top_bits:
  "length bs \<le> 16 \<Longrightarrow> bit (top_bits bs) i \<longleftrightarrow> i < 16 \<and> 16 - length bs \<le> i \<and> bs ! (15 - i)"
proof (induction bs arbitrary: i)
  case (Cons b bs)
  show ?case
  proof (cases "i < 15")
    case True
    then have nth: "(b # bs) ! (15 - i) = bs ! (14 - i)" by (simp add: nth_Cons')
    have "bit (top_bits (b # bs)) i \<longleftrightarrow> bit (top_bits bs) (Suc i)"
      using True by (auto simp: bit_simps)
    also have "\<dots> \<longleftrightarrow> 16 - length bs \<le> Suc i \<and> bs ! (14 - i)"
      using Cons.IH [of "Suc i"] Cons.prems True by simp
    finally show ?thesis using True by (auto simp: nth)
  next
    case False
    with Cons.prems show ?thesis by (auto simp: bit_simps dest: bit_imp_le_length)
  qed
qed simp

lemma reg_feed_top_bits:
  "length bs \<le> 15 \<Longrightarrow>
    foldl (reg_feed poly) r bs = (reg_shift poly ^^ length bs) (r XOR top_bits bs)"
proof (induction bs arbitrary: r)
  case (Cons b bs)
  have "reg_shift poly (drop_bit 1 (top_bits bs)) = push_bit 1 (drop_bit 1 (top_bits bs))"
    by (rule reg_shift_no_top) (auto simp: bit_simps dest: bit_imp_le_length)
  also have "\<dots> = top_bits bs"
  proof (rule bit_word_eqI)
    fix n
    show "bit (push_bit 1 (drop_bit 1 (top_bits bs))) n = bit (top_bits bs) n" if "n < LENGTH(16)"
      using that Cons.prems by (cases n) (auto simp: bit_simps bit_top_bits simp del: push_bit_Suc)
  qed
  finally have shift: "reg_shift poly (drop_bit 1 (top_bits bs)) = top_bits bs" .
  have "foldl (reg_feed poly) r (b # bs)
      = (reg_shift poly ^^ length bs) (reg_feed poly r b XOR top_bits bs)"
    using Cons by simp
  also have "reg_feed poly r b XOR top_bits bs = reg_shift poly (r XOR top_bits (b # bs))"
    unfolding reg_feed_shift by (simp add: reg_shift_xor shift xor.assoc del: One_nat_def)
  finally show ?case by (simp add: funpow_swap1)
qed simp

lemma byte_bits_nth: "k < 8 \<Longrightarrow> byte_bits d ! k = bit d (7 - k)"
  by (simp add: byte_bits_def rev_nth)

lemma length_byte_bits [simp]: "length (byte_bits d) = 8"
  by (simp add: byte_bits_def)

lemma top_bits_byte: "top_bits (byte_bits d) = push_bit 8 (ucast d)"
  by (rule bit_word_eqI) (auto simp: bit_top_bits bit_simps byte_bits_nth)

lemma reg_feed_byte:
  "foldl (reg_feed poly) r (byte_bits d) = reg_shift8 poly (r XOR push_bit 8 (ucast d))"
  using reg_feed_top_bits [of "byte_bits d" poly r]
  by (simp only: top_bits_byte length_byte_bits)

lemma crc_serial_Nil [simp]: "crc_serial poly r [] = r"
  by (simp add: crc_serial_def)

lemma crc_serial_Cons [simp]:
  "crc_serial poly r (d # ds) = crc_serial poly (reg_shift8 poly (r XOR push_bit 8 (ucast d))) ds"
  by (simp add: crc_serial_def reg_feed_byte del: funpow.simps)

lemma crc_serial_append [simp]:
  "crc_serial poly r (xs @ ys) = crc_serial poly (crc_serial poly r xs) ys"
  by (simp add: crc_serial_def)

section \<open>The table holds eight shifts of each byte\<close>

lemma mask_byte: "(0xFF :: u16) = mask 8" and mask_half: "(0xFFFF :: u32) = mask 16"
  by (simp_all add: mask_numeral)

lemma bit_8000: "bit (0x8000 :: u32) n \<longleftrightarrow> n = 15"
proof -
  have "(0x8000 :: u32) = push_bit 15 1" by simp
  then show ?thesis
    by (simp only: bit_push_bit_iff bit_1_iff possible_bit_word) auto
qed

lemma highbit: "(ucast (x AND 0x8000 :: u32) :: u16) \<noteq> 0 \<longleftrightarrow> bit x 15"
proof -
  have "bit (ucast (x AND 0x8000) :: u16) n \<longleftrightarrow> n = 15 \<and> bit x 15" for n
    by (auto simp only: bit_ucast_iff bit_and_iff bit_8000) simp_all
  then show ?thesis by (metis bit_0_eq bot_apply bot_bool_def bit_eq_iff)
qed

lemma crc16_init_bit_low: "ucast (crc16_init_bit poly x) = reg_shift poly (ucast x)"
proof -
  have "(ucast (push_bit 1 x) :: u16) = push_bit 1 (ucast x)"
    and "(ucast (push_bit 1 x XOR ucast poly) :: u16) = push_bit 1 (ucast x) XOR poly"
    by (auto intro!: bit_word_eqI simp: bit_simps simp del: push_bit_Suc)
  then show ?thesis
    by (simp add: crc16_init_bit_def reg_shift_def highbit bit_ucast_iff Let_def
        del: push_bit_Suc One_nat_def)
qed

lemma crc16_init_bits_low:
  "ucast ((crc16_init_bit poly ^^ n) x) = (reg_shift poly ^^ n) (ucast x)"
  by (induction n) (simp_all add: crc16_init_bit_low)

lemma crc16_init_entry_shift:
  "crc16_init_entry poly i = reg_shift8 poly (push_bit 8 (ucast i))"
proof -
  have "(ucast (y AND 0xFFFF) :: u16) = ucast y" for y :: u32
    unfolding mask_half by (rule bit_word_eqI) (auto simp: bit_simps)
  moreover have "(ucast (push_bit 8 i) :: u16) = push_bit 8 (ucast i)"
    by (rule bit_word_eqI) (auto simp: bit_simps)
  ultimately show ?thesis by (simp only: crc16_init_entry_def crc16_init_bits_low)
qed

lemma crctab_init:
  assumes "k < 256"
  shows "crctab (crc16_init ctx poly) ! k = reg_shift8 poly (push_bit 8 (word_of_nat k))"
proof -
  have "(ucast (word_of_nat k :: u32) :: u16) = word_of_nat k"
    using assms by (simp add: unsigned_of_nat take_bit_nat_eq_self)
  with assms show ?thesis
    by (simp add: crc16_init_def crc16_init_entry_shift del: funpow.simps)
qed

lemma length_crctab_init [simp]: "length (crctab (crc16_init ctx poly)) = 256"
  by (simp add: crc16_init_def)

text \<open>The contexts \<open>lmodem_init\<close> builds: a table for the polynomial it names.\<close>

definition crc16_ready :: "u16 \<Rightarrow> crc16_context \<Rightarrow> bool" where
  "crc16_ready poly ctx \<longleftrightarrow> crctab ctx = crctab (crc16_init ctx poly)"

lemma crc16_ready_init [simp]: "crc16_ready poly (crc16_init ctx poly)"
  by (simp add: crc16_ready_def crc16_init_def)

lemma register_split:
  fixes r :: u16
  assumes "k = (drop_bit 8 r XOR ucast (d :: u8)) AND 0xFF"
  shows "r XOR push_bit 8 (ucast d) = push_bit 8 k XOR (r AND 0xFF)"
    and "push_bit 8 (r AND 0xFF) = push_bit 8 r" and "unat k < 256"
proof -
  show "r XOR push_bit 8 (ucast d) = push_bit 8 k XOR (r AND 0xFF)"
    unfolding assms mask_byte by (rule bit_word_eqI) (auto simp: bit_simps)
  show "push_bit 8 (r AND 0xFF) = push_bit 8 r"
    unfolding mask_byte by (rule bit_word_eqI) (auto simp: bit_simps)
  have "k \<le> 0xFF" unfolding assms by (rule word_and_le1)
  then show "unat k < 256" by (simp add: word_le_nat_alt)
qed

lemma crc16_step_register:
  assumes "crc16_ready poly ctx"
  shows "crc16_step ctx r d = reg_shift8 poly (r XOR push_bit 8 (ucast d))"
proof -
  define k where "k = (drop_bit 8 r XOR ucast d) AND 0xFF"
  note split = register_split [OF k_def]
  have "reg_shift8 poly (r AND 0xFF) = push_bit 8 (r AND 0xFF)"
    unfolding mask_byte by (rule reg_shift_low) (auto simp: bit_simps)
  then have "reg_shift8 poly (r XOR push_bit 8 (ucast d))
      = reg_shift8 poly (push_bit 8 k) XOR push_bit 8 r"
    by (simp only: split reg_shift_funpow_xor)
  also have "reg_shift8 poly (push_bit 8 k) = crctab ctx ! unat k"
    using assms split(3) by (simp add: crc16_ready_def crctab_init of_nat_unat del: funpow.simps)
  finally show ?thesis
    unfolding crc16_step_def Let_def k_def [symmetric] by (simp only: xor.commute)
qed

lemma crc16_fold_serial:
  "crc16_ready poly ctx \<Longrightarrow> foldl (crc16_step ctx) r data = crc_serial poly r data"
  by (induction data arbitrary: r) (simp_all add: crc16_step_register del: funpow.simps)

lemma crc16_doCalcul_serial:
  "crc16_ready poly ctx \<Longrightarrow>
    crc16_doCalcul ctx data initValue xorFinal = crc_serial poly initValue data XOR xorFinal"
  by (simp add: crc16_doCalcul_def crc16_fold_serial)

section \<open>Error detection\<close>

text \<open>
  A polynomial with a constant term gives a register that can be run backwards: no state
  is lost, so a difference between two registers never disappears.
\<close>

lemma reg_shift_eq_zero:
  assumes "bit poly 0"
  shows "reg_shift poly r = 0 \<longleftrightarrow> r = 0"
proof
  assume zero: "reg_shift poly r = 0"
  have "bit (reg_shift poly r) 0 = bit r 15"
    using assms by (auto simp: reg_shift_def bit_simps simp del: push_bit_Suc)
  with zero have top: "\<not> bit r 15" by simp
  then have shifted: "push_bit 1 r = 0" using zero reg_shift_no_top [OF top, of poly] by metis
  have "\<not> bit r n" if "n < 15" for n
  proof -
    have "bit (push_bit 1 r) (Suc n) = bit r n"
      using that by (auto simp: bit_simps simp del: push_bit_Suc)
    with shifted show ?thesis by (simp del: push_bit_Suc)
  qed
  with top have "\<not> bit r n" if "n < 16" for n
    using that by (cases "n = 15") auto
  then show "r = 0" by (intro bit_word_eqI) auto
qed simp

lemma reg_shift8_eq_zero: "bit poly 0 \<Longrightarrow> (reg_shift poly ^^ n) r = 0 \<longleftrightarrow> r = 0"
  by (induction n) (simp_all add: reg_shift_eq_zero)

lemma reg_shift_inj:
  "bit poly 0 \<Longrightarrow> (reg_shift poly ^^ n) a = (reg_shift poly ^^ n) b \<longleftrightarrow> a = b"
  by (metis reg_shift8_eq_zero reg_shift_funpow_xor word_xor_eq_zero)

lemma crc_serial_inj:
  "bit poly 0 \<Longrightarrow> crc_serial poly r data = crc_serial poly s data \<longleftrightarrow> r = s"
proof (induction data arbitrary: r s)
  case (Cons d ds)
  then have "crc_serial poly r (d # ds) = crc_serial poly s (d # ds) \<longleftrightarrow>
      reg_shift8 poly (r XOR push_bit 8 (ucast d)) = reg_shift8 poly (s XOR push_bit 8 (ucast d))"
    by (simp del: funpow.simps)
  also have "\<dots> \<longleftrightarrow> r XOR push_bit 8 (ucast d) = s XOR push_bit 8 (ucast d)"
    using Cons.prems by (rule reg_shift_inj)
  also have "\<dots> \<longleftrightarrow> r = s"
    by (rule word_xor_cancel_right)
  finally show ?case .
qed simp

text \<open>Two neighbouring bytes enter the register as one 16-bit word shifted sixteen times.\<close>

lemma crc_serial_two:
  "crc_serial poly r [a, b] = (reg_shift poly ^^ 16) (r XOR (push_bit 8 (ucast a) XOR ucast b))"
proof -
  have "crc_serial poly r [a, b]
      = reg_shift8 poly (reg_shift8 poly (r XOR push_bit 8 (ucast a)) XOR reg_shift8 poly (ucast b))"
    by (simp only: crc_serial_Cons crc_serial_Nil reg_shift8_byte)
  also have "\<dots> = reg_shift8 poly (reg_shift8 poly ((r XOR push_bit 8 (ucast a)) XOR ucast b))"
    by (simp only: reg_shift_funpow_xor [symmetric])
  also have "\<dots> = (reg_shift poly ^^ (8 + 8)) ((r XOR push_bit 8 (ucast a)) XOR ucast b)"
    by (simp only: funpow_add comp_apply)
  finally show ?thesis by (simp only: xor.assoc) simp
qed

lemma two_bytes_inj:
  "push_bit 8 (ucast a) XOR ucast b = (push_bit 8 (ucast a') XOR ucast b' :: u16)
    \<longleftrightarrow> a = a' \<and> b = b'" for a b a' b' :: u8
proof
  assume eq: "push_bit 8 (ucast a) XOR ucast b = (push_bit 8 (ucast a') XOR ucast b' :: u16)"
  have hi: "bit (push_bit 8 (ucast x) XOR ucast y :: u16) (n + 8) = bit x n"
    and lo: "bit (push_bit 8 (ucast x) XOR ucast y :: u16) n = bit y n"
    if "n < 8" for n and x y :: u8
    using that by (auto simp: bit_simps dest: bit_imp_le_length)
  show "a = a' \<and> b = b'"
    using eq hi lo by (auto intro!: bit_word_eqI) metis+
qed simp

lemma crc_serial_detects_burst:
  assumes "bit poly 0"
  shows "crc_serial poly r (xs @ a # b # ys) = crc_serial poly r (xs @ a' # b' # ys)
    \<longleftrightarrow> a = a' \<and> b = b'"
proof -
  let ?r = "crc_serial poly r xs"
  have "crc_serial poly r (xs @ c # d # ys) = crc_serial poly (crc_serial poly ?r [c, d]) ys" for c d
    by (simp only: crc_serial_append crc_serial_Cons crc_serial_Nil)
  then have "crc_serial poly r (xs @ a # b # ys) = crc_serial poly r (xs @ a' # b' # ys) \<longleftrightarrow>
      crc_serial poly ?r [a, b] = crc_serial poly ?r [a', b']"
    by (simp only: crc_serial_inj [OF assms])
  also have "\<dots> \<longleftrightarrow> ?r XOR (push_bit 8 (ucast a) XOR ucast b)
      = ?r XOR (push_bit 8 (ucast a') XOR ucast b')"
    unfolding crc_serial_two by (rule reg_shift_inj [OF assms])
  also have "\<dots> \<longleftrightarrow> push_bit 8 (ucast a) XOR ucast b = (push_bit 8 (ucast a') XOR ucast b' :: u16)"
    by (rule word_xor_cancel_left)
  finally show ?thesis by (simp only: two_bytes_inj)
qed

lemma crc_serial_detects_byte:
  assumes "bit poly 0"
  shows "crc_serial poly r (xs @ a # ys) = crc_serial poly r (xs @ b # ys) \<longleftrightarrow> a = b"
proof -
  have "crc_serial poly r (xs @ a # ys) = crc_serial poly r (xs @ b # ys) \<longleftrightarrow>
      crc_serial poly r ((xs @ a # ys) @ [0]) = crc_serial poly r ((xs @ b # ys) @ [0])"
    by (simp only: crc_serial_append crc_serial_inj [OF assms])
  then show ?thesis
    using crc_serial_detects_burst [OF assms, of r xs a _ _ b]
    by (cases ys) (auto simp only: append.simps append_assoc)
qed

section \<open>The CRC on the wire\<close>

text \<open>How sender and receiver split the CRC: \<open>(crc & 0xFF00) >> 8\<close> and \<open>crc & 0xFF\<close>.\<close>

definition crc_hi :: "u16 \<Rightarrow> u8" where
  "crc_hi crc = ucast (drop_bit 8 (crc AND 0xFF00))"

definition crc_lo :: "u16 \<Rightarrow> u8" where
  "crc_lo crc = ucast (crc AND 0xFF)"

lemma crc_lo_ucast: "crc_lo r = ucast r"
  unfolding crc_lo_def mask_byte by (rule bit_word_eqI) (auto simp: bit_simps)

lemma bit_FF00: "bit (0xFF00 :: u16) n \<longleftrightarrow> 8 \<le> n \<and> n < 16"
proof -
  have "(0xFF00 :: u16) = push_bit 8 (mask 8)" by (simp add: mask_numeral)
  then show ?thesis
    by (simp only: bit_push_bit_iff bit_mask_iff possible_bit_word) auto
qed

lemma crc_hi_ucast: "crc_hi r = ucast (drop_bit 8 r)"
proof -
  have "drop_bit 8 (r AND 0xFF00) = drop_bit 8 r"
    by (rule bit_word_eqI, auto simp only: bit_drop_bit_eq bit_and_iff bit_FF00 comp_apply)
      (auto dest: bit_imp_le_length)
  then show ?thesis by (simp only: crc_hi_def)
qed

lemma crc_split: "push_bit 8 (ucast (crc_hi r)) XOR ucast (crc_lo r) = r"
  unfolding crc_lo_ucast crc_hi_ucast by (rule bit_word_eqI) (auto simp: bit_simps)

lemma crc_serial_residue: "crc_serial poly r [crc_hi r, crc_lo r] = 0"
  unfolding crc_serial_two crc_split by (simp del: funpow.simps)

section \<open>Properties\<close>

text \<open>
  C10: The table-driven CRC (\<open>crc16_init\<close>, then \<open>crc16_doCalcul\<close>) is the bit-serial shift
  register of the polynomial, for every polynomial, message, start value and final mask.
\<close>

theorem crc_table_is_shift_register:
  "crc16_doCalcul (crc16_init ctx poly) data initValue xorFinal =
    foldl (reg_feed poly) initValue (concat (map byte_bits data)) XOR xorFinal"
  by (simp only: crc16_doCalcul_serial [OF crc16_ready_init] crc_serial_def)

text \<open>
  C11: With the CCITT polynomial, two messages of one length that differ only inside two
  neighbouring bytes never have the same CRC, so no burst of up to nine bits, and no single
  corrupted byte, goes unnoticed.
\<close>

theorem crc_detects_two_byte_burst:
  "crc16_doCalcul (crc16_init ctx 0x1021) (xs @ a # b # ys) initValue xorFinal =
    crc16_doCalcul (crc16_init ctx 0x1021) (xs @ a' # b' # ys) initValue xorFinal
    \<longleftrightarrow> a = a' \<and> b = b'"
  unfolding crc16_doCalcul_serial [OF crc16_ready_init]
  by (subst word_xor_cancel_right, rule crc_serial_detects_burst) simp

text \<open>A message followed by its CRC as the sender splits it, high byte first, has CRC zero.\<close>

lemma crc_of_message_with_crc:
  "crc16_doCalcul (crc16_init ctx poly)
     (data @ [crc_hi (crc16_doCalcul (crc16_init ctx poly) data initValue 0),
              crc_lo (crc16_doCalcul (crc16_init ctx poly) data initValue 0)]) initValue 0 = 0"
  using crc_serial_residue [of poly "crc_serial poly initValue data"]
  by (simp add: crc16_doCalcul_serial [OF crc16_ready_init] del: crc_serial_Cons)

end
