(* ===== verification/Lbuffer.thy ===== *)
theory Lbuffer
  imports Prelude
begin

text \<open>
  \<open>src/lmodem_buffer.c\<close>: the RAM file a transfer reads from or writes to. The abstract view
  is a bounded byte queue (locale \<open>byte_fifo\<close>): \<open>ram_unread\<close> is what was written and not yet
  read, \<open>ram_room\<close> the bytes still free. The code keeps the last byte free: a write needs
  strictly more room than it has bytes, else it stores nothing.
\<close>

section \<open>The code\<close>

record lmodem_buffer =
  ram_buffer :: "u8 list"
  ram_read_offset :: u32
  ram_write_offset :: u32
  ram_max_size :: u32

definition lmodem_buffer_init :: "lmodem_buffer \<Rightarrow> u8 list \<Rightarrow> u32 \<Rightarrow> lmodem_buffer" where
  "lmodem_buffer_init b buffer max_size =
     b\<lparr>ram_buffer := buffer, ram_max_size := max_size, ram_read_offset := 0, ram_write_offset := 0\<rparr>"

text \<open>The two sizes are \<open>int32_t\<close>: the difference is computed in \<open>uint32_t\<close> and reread signed.\<close>

definition lmodem_buffer_get_remaining_capacity :: "lmodem_buffer \<Rightarrow> u32" where
  "lmodem_buffer_get_remaining_capacity b = ram_max_size b - ram_write_offset b"

definition lmodem_buffer_get_size :: "lmodem_buffer \<Rightarrow> u32" where
  "lmodem_buffer_get_size b = ram_write_offset b - ram_read_offset b"

text \<open>\<open>src\<close> is the object \<open>buffer\<close> points to, from that byte on.\<close>

definition lmodem_buffer_write ::
  "lmodem_buffer \<Rightarrow> u8 list \<Rightarrow> u32 \<Rightarrow> (u32 \<times> lmodem_buffer) option" where
  "lmodem_buffer_write b src sz =
     (let remaining_bytes = lmodem_buffer_get_remaining_capacity b;
          nbToCopy =
            (if sint remaining_bytes > sint sz then sz
             else if sint (remaining_bytes - sz) < 0 then 0 else remaining_bytes - sz)
      in do {
        chunk \<leftarrow> mem_get src 0 (size_of_s32 nbToCopy);
        buf \<leftarrow> mem_put (ram_buffer b) (unat (ram_write_offset b)) chunk;
        Some (nbToCopy,
          b\<lparr>ram_buffer := buf, ram_write_offset := ram_write_offset b + nbToCopy\<rparr>)
      })"

text \<open>The bytes \<open>memcpy\<close> stores at the caller's \<open>buffer\<close> are the second component.\<close>

definition lmodem_buffer_read ::
  "lmodem_buffer \<Rightarrow> u32 \<Rightarrow> (u32 \<times> u8 list \<times> lmodem_buffer) option" where
  "lmodem_buffer_read b sz =
     (let currentSize = lmodem_buffer_get_size b;
          readSize = (if sint currentSize < sint sz then currentSize else sz)
      in do {
        chunk \<leftarrow> mem_get (ram_buffer b) (unat (ram_read_offset b)) (size_of_s32 readSize);
        Some (readSize, chunk, b\<lparr>ram_read_offset := ram_read_offset b + readSize\<rparr>)
      })"

definition lmodem_buffer_set_write_offset ::
  "lmodem_buffer \<Rightarrow> u32 \<Rightarrow> bool \<times> lmodem_buffer" where
  "lmodem_buffer_set_write_offset b newWriteOffset =
     (if newWriteOffset \<le> ram_max_size b
      then (True, b\<lparr>ram_write_offset := newWriteOffset\<rparr>) else (False, b))"

section \<open>Well-formed files\<close>

definition ram_wf :: "lmodem_buffer \<Rightarrow> bool" where
  "ram_wf b \<longleftrightarrow>
     unat (ram_read_offset b) \<le> unat (ram_write_offset b) \<and>
     unat (ram_write_offset b) \<le> unat (ram_max_size b) \<and>
     unat (ram_max_size b) \<le> length (ram_buffer b) \<and>
     unat (ram_max_size b) < 2 ^ 31"

definition ram_contents :: "lmodem_buffer \<Rightarrow> u8 list" where
  "ram_contents b = take (unat (ram_write_offset b)) (ram_buffer b)"

definition ram_unread :: "lmodem_buffer \<Rightarrow> u8 list" where
  "ram_unread b = drop (unat (ram_read_offset b)) (ram_contents b)"

definition ram_room :: "lmodem_buffer \<Rightarrow> nat" where
  "ram_room b = unat (ram_max_size b) - unat (ram_write_offset b)"

named_theorems ram_defs \<open>the offsets behind the abstract view\<close>

declare ram_wf_def [ram_defs] ram_contents_def [ram_defs] ram_unread_def [ram_defs]
  ram_room_def [ram_defs]

lemma ram_wf_init:
  "unat max_size \<le> length buffer \<Longrightarrow> unat max_size < 2 ^ 31 \<Longrightarrow>
    ram_wf (lmodem_buffer_init b buffer max_size)"
  by (simp add: ram_wf_def lmodem_buffer_init_def)

lemma ram_init [simp]:
  "ram_unread (lmodem_buffer_init b buffer max_size) = []"
  "ram_contents (lmodem_buffer_init b buffer max_size) = []"
  "ram_room (lmodem_buffer_init b buffer max_size) = unat max_size"
  by (simp_all add: ram_defs lmodem_buffer_init_def)

lemma length_unread:
  "ram_wf b \<Longrightarrow>
    length (ram_unread b) = unat (ram_write_offset b) - unat (ram_read_offset b)"
  by (simp add: ram_defs)

lemma remaining_capacity_room:
  "ram_wf b \<Longrightarrow> unat (lmodem_buffer_get_remaining_capacity b) = ram_room b"
  by (simp add: lmodem_buffer_get_remaining_capacity_def ram_wf_def ram_room_def unat_u32_sub)

lemma get_size_unread:
  "ram_wf b \<Longrightarrow> unat (lmodem_buffer_get_size b) = length (ram_unread b)"
  by (simp add: lmodem_buffer_get_size_def ram_defs unat_u32_sub)

lemma ram_room_less: "ram_wf b \<Longrightarrow> ram_room b < 2 ^ 31"
  by (auto simp: ram_defs)

lemma ram_unread_less: "ram_wf b \<Longrightarrow> length (ram_unread b) < 2 ^ 31"
  by (auto simp: ram_defs)

text \<open>A write that leaves at least one byte free.\<close>

lemma buffer_write_room:
  assumes wf: "ram_wf b" and src: "unat sz \<le> length src" and room: "unat sz < ram_room b"
  shows "\<exists>b'. lmodem_buffer_write b src sz = Some (sz, b') \<and> ram_wf b' \<and>
    ram_contents b' = ram_contents b @ take (unat sz) src \<and>
    ram_unread b' = ram_unread b @ take (unat sz) src \<and>
    ram_room b' = ram_room b - unat sz \<and> ram_max_size b' = ram_max_size b \<and>
    ram_read_offset b' = ram_read_offset b"
proof -
  let ?w = "unat (ram_write_offset b)"
  have small: "unat sz < 2 ^ 31" using ram_room_less [OF wf] room by simp
  have "sint (lmodem_buffer_get_remaining_capacity b) > sint sz"
    using room small ram_room_less [OF wf] remaining_capacity_room [OF wf] by (simp add: sint_u32)
  moreover have w: "?w + unat sz \<le> length (ram_buffer b)" "unat (ram_write_offset b + sz) = ?w + unat sz"
    using wf room by (auto simp: ram_defs intro!: unat_u32_add)
  ultimately show ?thesis
    using wf src small room
    by (simp add: lmodem_buffer_write_def mem_simps size_of_s32_small ram_defs min_absorb2)
qed

lemma buffer_write_full:
  assumes wf: "ram_wf b" and small: "unat sz < 2 ^ 31" and full: "ram_room b \<le> unat sz"
  shows "lmodem_buffer_write b src sz = Some (0, b)"
proof -
  let ?r = "lmodem_buffer_get_remaining_capacity b"
  note r = remaining_capacity_room [OF wf]
  have "\<not> sint ?r > sint sz"
    using full small ram_room_less [OF wf] r by (simp add: sint_u32)
  moreover have "sint (?r - sz) < 0 \<or> ?r - sz = 0"
  proof (cases "ram_room b = unat sz")
    case True
    with r have "?r = sz" by (simp add: word_unat_eq_iff)
    then show ?thesis by simp
  next
    case False
    with full have less: "unat ?r < unat sz" using r by simp
    then have "unat (?r - sz) = 2 ^ 32 + unat ?r - unat sz"
      by (simp add: unat_sub_if_size word_le_nat_alt word_size)
    with less small show ?thesis by (auto simp: sint_u32)
  qed
  ultimately show ?thesis
    using wf by (auto simp: lmodem_buffer_write_def mem_simps size_of_s32_small ram_wf_def Let_def)
qed

lemma buffer_read_unread:
  assumes wf: "ram_wf b" and small: "unat sz < 2 ^ 31"
  shows "\<exists>b' n. lmodem_buffer_read b sz = Some (n, take (unat sz) (ram_unread b), b') \<and>
    unat n = min (unat sz) (length (ram_unread b)) \<and> ram_wf b' \<and>
    ram_unread b' = drop (unat sz) (ram_unread b) \<and> ram_contents b' = ram_contents b \<and>
    ram_room b' = ram_room b \<and> ram_max_size b' = ram_max_size b"
proof -
  let ?c = "lmodem_buffer_get_size b" and ?r = "unat (ram_read_offset b)"
  define n where "n = (if sint ?c < sint sz then ?c else sz)"
  note c = get_size_unread [OF wf]
  have n: "unat n = min (unat sz) (length (ram_unread b))"
    using small ram_unread_less [OF wf] c by (simp add: n_def sint_u32)
  have le: "?r + unat n \<le> unat (ram_write_offset b)"
    using n wf by (auto simp: length_unread ram_wf_def min_def)
  then have sum: "unat (ram_read_offset b + n) = ?r + unat n"
    using unat_u32_less [of "ram_write_offset b"] by (intro unat_u32_add) simp
  have chunk: "take (unat n) (drop ?r (ram_buffer b)) = take (unat sz) (ram_unread b)"
    using n wf by (simp add: ram_defs drop_take min_def)
  let ?b' = "b\<lparr>ram_read_offset := ram_read_offset b + n\<rparr>"
  have wf': "ram_wf ?b'"
    using wf le by (simp add: ram_wf_def sum)
  have "ram_unread ?b' = drop (unat n) (ram_unread b)"
    unfolding ram_unread_def ram_contents_def by (simp add: sum add.commute [of "unat n"])
  also have "\<dots> = drop (unat sz) (ram_unread b)"
    using n by (simp add: min_def)
  finally have rest: "ram_unread ?b' = drop (unat sz) (ram_unread b)" .
  have "lmodem_buffer_read b sz
      = Some (n, take (unat sz) (ram_unread b), ?b')"
    using wf le n small chunk
    by (simp add: lmodem_buffer_read_def n_def [symmetric] mem_simps size_of_s32_small ram_wf_def)
  then show ?thesis
    using n wf' rest by (auto simp: ram_contents_def ram_room_def)
qed

section \<open>The interface: a bounded byte queue\<close>

text \<open>
  What the sender (\<open>get\<close>) and the receiver (\<open>put\<close>) rely on. \<open>put s src n\<close> stores the first
  \<open>n\<close> bytes of the object \<open>src\<close> when that leaves room, and nothing otherwise.
\<close>

locale byte_fifo =
  fixes inv :: "'s \<Rightarrow> bool"
    and unread :: "'s \<Rightarrow> u8 list"
    and room :: "'s \<Rightarrow> nat"
    and put :: "'s \<Rightarrow> u8 list \<Rightarrow> u32 \<Rightarrow> (u32 \<times> 's) option"
    and get :: "'s \<Rightarrow> u32 \<Rightarrow> (u32 \<times> u8 list \<times> 's) option"
  assumes put_room: "inv s \<Longrightarrow> unat n \<le> length src \<Longrightarrow> unat n < room s \<Longrightarrow>
      \<exists>s'. put s src n = Some (n, s') \<and> inv s' \<and>
        unread s' = unread s @ take (unat n) src \<and> room s' = room s - unat n"
    and put_full: "inv s \<Longrightarrow> unat n < 2 ^ 31 \<Longrightarrow> room s \<le> unat n \<Longrightarrow> put s src n = Some (0, s)"
    and get_unread: "inv s \<Longrightarrow> unat n < 2 ^ 31 \<Longrightarrow>
      \<exists>m s'. get s n = Some (m, take (unat n) (unread s), s') \<and>
        unat m = min (unat n) (length (unread s)) \<and> inv s' \<and>
        unread s' = drop (unat n) (unread s) \<and> room s' = room s"
    and room_small: "inv s \<Longrightarrow> room s < 2 ^ 31"
begin

text \<open>Storing blocks one after the other, stopping at the first that does not fit.\<close>

fun put_blocks :: "'s \<Rightarrow> u8 list list \<Rightarrow> 's option" where
  "put_blocks s [] = Some s"
| "put_blocks s (xs # xss) =
     (case put s xs (word_of_nat (length xs)) of
        None \<Rightarrow> None
      | Some (n, s') \<Rightarrow> if unat n = length xs then put_blocks s' xss else None)"

lemma put_block:
  assumes "inv s" and "length xs < room s"
  shows "\<exists>s'. put s xs (word_of_nat (length xs)) = Some (word_of_nat (length xs), s') \<and> inv s' \<and>
    unread s' = unread s @ xs \<and> room s' = room s - length xs \<and>
    unat (word_of_nat (length xs) :: u32) = length xs"
proof -
  have len: "unat (word_of_nat (length xs) :: u32) = length xs"
    using assms room_small [of s] by (simp add: unat_of_nat)
  then show ?thesis
    using put_room [of s "word_of_nat (length xs)" xs] assms by auto
qed

lemma put_blocks_unread:
  "inv s \<Longrightarrow> length (concat xss) < room s \<Longrightarrow>
    \<exists>s'. put_blocks s xss = Some s' \<and> inv s' \<and> unread s' = unread s @ concat xss \<and>
      room s' = room s - length (concat xss)"
proof (induction xss arbitrary: s)
  case (Cons xs xss)
  then obtain s1 where s1: "put s xs (word_of_nat (length xs)) = Some (word_of_nat (length xs), s1)"
    "inv s1" "unread s1 = unread s @ xs" "room s1 = room s - length xs"
    "unat (word_of_nat (length xs) :: u32) = length xs"
    using put_block [of s xs] by auto
  with Cons.prems have "length (concat xss) < room s1" by simp
  from Cons.IH [OF s1(2) this] s1 show ?case by auto
qed simp

text \<open>What went in comes out, in order, however it was cut into blocks.\<close>

lemma put_blocks_get:
  assumes "inv s" and "unread s = []" and "length (concat xss) < room s"
  shows "\<exists>s' m s''. put_blocks s xss = Some s' \<and>
    get s' (word_of_nat (length (concat xss))) = Some (m, concat xss, s'') \<and> unread s'' = []"
proof -
  obtain s' where s': "put_blocks s xss = Some s'" "inv s'" "unread s' = concat xss"
    using put_blocks_unread [OF assms(1,3)] assms(2) by auto
  have "unat (word_of_nat (length (concat xss)) :: u32) = length (concat xss)"
    using assms(1,3) room_small [of s] by (simp add: unat_of_nat)
  with get_unread [OF s'(2), of "word_of_nat (length (concat xss))"] s' assms room_small [of s]
  show ?thesis by auto
qed

end

interpretation ram: byte_fifo ram_wf ram_unread ram_room lmodem_buffer_write lmodem_buffer_read
proof
  show "ram_wf s \<Longrightarrow> unat n \<le> length src \<Longrightarrow> unat n < ram_room s \<Longrightarrow>
      \<exists>s'. lmodem_buffer_write s src n = Some (n, s') \<and> ram_wf s' \<and>
        ram_unread s' = ram_unread s @ take (unat n) src \<and> ram_room s' = ram_room s - unat n"
    for s n src
    using buffer_write_room by blast
  show "ram_wf s \<Longrightarrow> unat n < 2 ^ 31 \<Longrightarrow> ram_room s \<le> unat n \<Longrightarrow>
      lmodem_buffer_write s src n = Some (0, s)" for s n src
    by (rule buffer_write_full)
  show "ram_wf s \<Longrightarrow> unat n < 2 ^ 31 \<Longrightarrow>
      \<exists>m s'. lmodem_buffer_read s n = Some (m, take (unat n) (ram_unread s), s') \<and>
        unat m = min (unat n) (length (ram_unread s)) \<and> ram_wf s' \<and>
        ram_unread s' = drop (unat n) (ram_unread s) \<and> ram_room s' = ram_room s" for s n
    using buffer_read_unread by blast
  show "ram_wf s \<Longrightarrow> ram_room s < 2 ^ 31" for s
    by (rule ram_room_less)
qed

section \<open>Properties\<close>

text \<open>
  C23: \<open>lmodem_buffer_write\<close> on a well-formed file, both branches. With more room than bytes
  it appends all of them and takes their room; else, and also when they fit exactly, it
  stores nothing, returns 0 and leaves the file alone. There is no other outcome.
\<close>

theorem lmodem_buffer_write_all_or_nothing:
  assumes "ram_wf b" and "unat sz \<le> length src" and "unat sz < 2 ^ 31"
  shows "\<exists>n b'. lmodem_buffer_write b src sz = Some (n, b') \<and> ram_wf b' \<and>
    (if unat sz < ram_room b
     then n = sz \<and> ram_contents b' = ram_contents b @ take (unat sz) src \<and>
       ram_unread b' = ram_unread b @ take (unat sz) src \<and> ram_room b' = ram_room b - unat sz
     else n = 0 \<and> b' = b)"
  using buffer_write_room [OF assms(1,2)] buffer_write_full [OF assms(1,3), of src] assms(1)
  by (cases "unat sz < ram_room b") auto

theorem lmodem_buffer_write_all_or_nothing_witness:
  "\<exists>n b'. lmodem_buffer_write (lmodem_buffer_init (\<lparr>ram_buffer = [], ram_read_offset = 2, ram_write_offset = 1, ram_max_size = 0\<rparr>) (replicate 4 0) 4) [1, 2, 3, 4] 4 = Some (n, b') \<and>
    n = 0 \<and> b' = lmodem_buffer_init (\<lparr>ram_buffer = [], ram_read_offset = 2, ram_write_offset = 1, ram_max_size = 0\<rparr>) (replicate 4 0) 4"
  using lmodem_buffer_write_all_or_nothing [of "lmodem_buffer_init (\<lparr>ram_buffer = [], ram_read_offset = 2, ram_write_offset = 1, ram_max_size = 0\<rparr>) (replicate 4 0) 4" 4 "[1, 2, 3, 4]"]
  by (simp add: ram_wf_init)

text \<open>Writing blocks in turn, and stopping at the first that is refused.\<close>

fun write_blocks :: "lmodem_buffer \<Rightarrow> u8 list list \<Rightarrow> lmodem_buffer option" where
  "write_blocks b [] = Some b"
| "write_blocks b (xs # xss) = do {
     (n, b) \<leftarrow> lmodem_buffer_write b xs (word_of_nat (length xs));
     if unat n = length xs then write_blocks b xss else None
   }"

lemma write_blocks_put: "write_blocks b xss = ram.put_blocks b xss"
  by (induction xss arbitrary: b) (auto split: option.splits)

text \<open>
  C24: What goes into a fresh RAM file comes out: after \<open>lmodem_buffer_init\<close>, blocks of any
  sizes that leave a byte free are all stored, one read delivers their concatenation, and
  nothing is left unread.
\<close>

theorem ram_file_round_trip:
  assumes "unat max_size \<le> length buffer" and "unat max_size < 2 ^ 31"
    and "length (concat xss) < unat max_size"
  shows "\<exists>b' n b''. write_blocks (lmodem_buffer_init b buffer max_size) xss = Some b' \<and>
    lmodem_buffer_read b' (word_of_nat (length (concat xss))) = Some (n, concat xss, b'') \<and>
    ram_unread b'' = []"
  unfolding write_blocks_put
  by (rule ram.put_blocks_get) (use assms in \<open>simp_all add: ram_wf_init\<close>)

theorem ram_file_round_trip_witness:
  "\<exists>b' n b''. write_blocks (lmodem_buffer_init (\<lparr>ram_buffer = [], ram_read_offset = 2, ram_write_offset = 1, ram_max_size = 0\<rparr>) (replicate 8 0) 8) [[1, 2], [], [3, 4, 5]] = Some b' \<and>
    lmodem_buffer_read b' 5 = Some (n, [1, 2, 3, 4, 5], b'') \<and> ram_unread b'' = []"
  using ram_file_round_trip [of 8 "replicate 8 0" "[[1, 2], [], [3, 4, 5]]" "\<lparr>ram_buffer = [], ram_read_offset = 2, ram_write_offset = 1, ram_max_size = 0\<rparr>"] by simp

end
