(* ===== verification/Libc.thy ===== *)
theory Libc
  imports Prelude
begin

text \<open>
  The functions of the C library the sources call, on the bytes of the object a pointer
  points into, from that byte on. Running off the end of the object is \<open>None\<close>.
\<close>

section \<open>Strings\<close>

fun strlen :: "u8 list \<Rightarrow> nat option" where
  "strlen [] = None"
| "strlen (x # xs) = (if x = 0 then Some 0 else map_option Suc (strlen xs))"

text \<open>The \<open>n\<close> bytes \<open>strncpy\<close> stores: the string, then zeros; no terminator if it is too long.\<close>

fun strncpy_bytes :: "u8 list \<Rightarrow> nat \<Rightarrow> u8 list option" where
  "strncpy_bytes src 0 = Some []"
| "strncpy_bytes [] (Suc n) = None"
| "strncpy_bytes (x # xs) (Suc n) =
     (if x = 0 then Some (replicate (Suc n) 0) else map_option ((#) x) (strncpy_bytes xs n))"

definition strncpy :: "u8 list \<Rightarrow> nat \<Rightarrow> u8 list \<Rightarrow> nat \<Rightarrow> u8 list option" where
  "strncpy dst i src n = do { bs \<leftarrow> strncpy_bytes src n; mem_put dst i bs }"

text \<open>A C string without its terminator.\<close>

definition is_text :: "u8 list \<Rightarrow> bool" where
  "is_text s \<longleftrightarrow> 0 \<notin> set s"

lemma strlen_text: "is_text s \<Longrightarrow> strlen (s @ 0 # rest) = Some (length s)"
  by (induction s) (auto simp: is_text_def)

lemma strncpy_bytes_length: "strncpy_bytes src n = Some bs \<Longrightarrow> length bs = n"
  by (induction src n arbitrary: bs rule: strncpy_bytes.induct) (auto split: if_splits)

lemma strncpy_bytes_text:
  "is_text s \<Longrightarrow> length s \<le> n \<Longrightarrow>
    strncpy_bytes (s @ 0 # rest) n = Some (s @ replicate (n - length s) 0)"
proof (induction s arbitrary: n)
  case Nil
  then show ?case by (cases n) auto
next
  case (Cons x s)
  then obtain m where n: "n = Suc m" by (cases n) auto
  with Cons show ?case by (auto simp: is_text_def)
qed

lemma strncpy_bytes_cut:
  "is_text s \<Longrightarrow> n \<le> length s \<Longrightarrow> strncpy_bytes (s @ rest) n = Some (take n s)"
proof (induction s arbitrary: n)
  case (Cons x s)
  then show ?case by (cases n) (auto simp: is_text_def)
qed simp

text \<open>The bytes of a string constant in the source.\<close>

definition str :: "string \<Rightarrow> u8 list" where
  "str = map of_char"

definition newline :: "u8 list" where
  "newline = [10]"

section \<open>Numbers\<close>

text \<open>The digits of a number in a base up to ten, most significant first.\<close>

function digits :: "nat \<Rightarrow> nat \<Rightarrow> u8 list" where
  "digits base n =
     (if base < 2 \<or> n < base then [word_of_nat (48 + n)]
      else digits base (n div base) @ [word_of_nat (48 + n mod base)])"
  by pat_completeness auto
termination
  by (relation "measure (\<lambda>(base, n). n)") auto

declare digits.simps [simp del]

text \<open>\<open>%d\<close> of a \<open>uint32_t\<close>, which is read as an \<open>int\<close>, and \<open>%o\<close>.\<close>

definition format_d :: "u32 \<Rightarrow> u8 list" where
  "format_d x =
     (if sint x < 0 then 0x2D # digits 10 (nat (- sint x)) else digits 10 (nat (sint x)))"

definition format_o :: "u32 \<Rightarrow> u8 list" where
  "format_o x = digits 8 (unat x)"

text \<open>
  \<open>snprintf(p, n, ...)\<close> with the text to print: what fits, and a zero, if \<open>n\<close> is not 0. The
  result is the length of the whole text.
\<close>

definition snprintf :: "u8 list \<Rightarrow> nat \<Rightarrow> nat \<Rightarrow> u8 list \<Rightarrow> (nat \<times> u8 list) option" where
  "snprintf dst i n txt =
     (if n = 0 then Some (length txt, dst)
      else do { dst \<leftarrow> mem_put dst i (take (n - 1) txt @ [0]); Some (length txt, dst) })"

text \<open>
  \<open>strtoul(s, &end, base)\<close> for a base up to ten, on a host with a 64-bit \<open>unsigned long\<close>: the
  value, and how many bytes were read, none if there are no digits.
\<close>

fun c_span :: "(u8 \<Rightarrow> bool) \<Rightarrow> u8 list \<Rightarrow> (u8 list \<times> u8 list) option" where
  "c_span P [] = None"
| "c_span P (x # xs) = (if P x then map_option (\<lambda>(ys, zs). (x # ys, zs)) (c_span P xs) else Some ([], x # xs))"

definition is_space :: "u8 \<Rightarrow> bool" where
  "is_space x \<longleftrightarrow> x = 0x20 \<or> (0x09 \<le> x \<and> x \<le> 0x0D)"

definition is_digit :: "nat \<Rightarrow> u8 \<Rightarrow> bool" where
  "is_digit base x \<longleftrightarrow> 48 \<le> unat x \<and> unat x < 48 + base"

definition digits_value :: "nat \<Rightarrow> u8 list \<Rightarrow> nat" where
  "digits_value base ds = foldl (\<lambda>n d. n * base + (unat d - 48)) 0 ds"

definition strtoul :: "nat \<Rightarrow> u8 list \<Rightarrow> (64 word \<times> nat) option" where
  "strtoul base s = do {
     (ws, s1) \<leftarrow> c_span is_space s;
     let (neg, s2) =
       (case s1 of
          x # xs \<Rightarrow> if x = 0x2D then (True, xs) else if x = 0x2B then (False, xs) else (False, s1)
        | [] \<Rightarrow> (False, s1));
     (ds, s3) \<leftarrow> c_span (is_digit base) s2;
     if ds = [] then Some (0, 0)
     else do {
       let n = digits_value base ds;
       let v = (if n < 2 ^ 64 then (if neg then - word_of_nat n else word_of_nat n) else -1);
       Some (v, length s - length s3)
     }
   }"

text \<open>Printed numbers are read back.\<close>

lemma digits_ne [simp]: "digits base n \<noteq> []"
  by (subst digits.simps) simp

lemma c_span_prefix:
  "\<forall>x \<in> set xs. P x \<Longrightarrow> \<not> P y \<Longrightarrow> c_span P (xs @ y # rest) = Some (xs, y # rest)"
  by (induction xs) auto

lemma unat_digit: "d < 10 \<Longrightarrow> unat (word_of_nat (48 + d) :: u8) = 48 + d"
  by (subst unat_of_nat, rule mod_less) simp

lemma is_digit_digit: "d < base \<Longrightarrow> base \<le> 10 \<Longrightarrow> is_digit base (word_of_nat (48 + d))"
  unfolding is_digit_def by (subst unat_digit, simp)+ simp

lemma digits_correct:
  assumes "2 \<le> base" and "base \<le> 10"
  shows "digits_value base (digits base n) = n \<and> (\<forall>x \<in> set (digits base n). is_digit base x)"
  using assms
proof (induction base n rule: digits.induct)
  case (1 base n)
  show ?case
  proof (cases "n < base")
    case True
    then have "digits base n = [word_of_nat (48 + n)]" by (simp add: digits.simps [of base n])
    with True "1.prems" show ?thesis
      using unat_digit [of n] is_digit_digit [of n base] by (simp add: digits_value_def)
  next
    case False
    then have d: "digits base n = digits base (n div base) @ [word_of_nat (48 + n mod base)]"
      using "1.prems" by (simp add: digits.simps [of base n])
    have ih: "digits_value base (digits base (n div base)) = n div base \<and>
        (\<forall>x \<in> set (digits base (n div base)). is_digit base x)"
      using "1.IH" False "1.prems" by auto
    have less: "n mod base < base" "n mod base < 10"
      using "1.prems" mod_less_divisor [of base n] by linarith+
    have "digits_value base (digits base n) = (n div base) * base + n mod base"
      using ih unat_digit [OF less(2)] unfolding d by (simp add: digits_value_def)
    moreover have "\<forall>x \<in> set (digits base n). is_digit base x"
      using ih is_digit_digit [OF less(1) "1.prems"(2)] unfolding d by auto
    ultimately show ?thesis by simp
  qed
qed

lemma digit_not_space: "is_digit base x \<Longrightarrow> \<not> is_space x \<and> x \<noteq> 0x2D \<and> x \<noteq> 0x2B \<and> x \<noteq> 0x20 \<and> x \<noteq> 0"
  by (auto simp: is_digit_def is_space_def word_le_nat_alt)

lemma strtoul_digits:
  assumes base: "2 \<le> base" "base \<le> 10" and n: "n < 2 ^ 64" and x: "\<not> is_digit base x"
  shows "strtoul base (digits base n @ x # rest) = Some (word_of_nat n, length (digits base n))"
    and "strtoul base (0x2D # digits base n @ x # rest) = Some (- word_of_nat n, Suc (length (digits base n)))"
proof -
  note d = digits_correct [OF base, of n]
  obtain y ys where y: "digits base n = y # ys" using digits_ne [of base n] by (cases "digits base n") blast+
  with d have "is_digit base y" by simp
  note y' = digit_not_space [OF this]
  have span: "c_span (is_digit base) (digits base n @ x # rest) = Some (digits base n, x # rest)"
    using d x by (intro c_span_prefix) auto
  have "c_span is_space (digits base n @ x # rest) = Some ([], digits base n @ x # rest)"
    using y y' by simp
  then show "strtoul base (digits base n @ x # rest) = Some (word_of_nat n, length (digits base n))"
    using span y y' d n by (simp add: strtoul_def)
  have "c_span is_space (0x2D # digits base n @ x # rest) = Some ([], 0x2D # digits base n @ x # rest)"
    by (simp add: is_space_def)
  then show "strtoul base (0x2D # digits base n @ x # rest) =
      Some (- word_of_nat n, Suc (length (digits base n)))"
    using span y d n by (simp add: strtoul_def)
qed

section \<open>Numbers in any notation\<close>

text \<open>
  \<open>strtoul(s, &end, 0)\<close>: hexadecimal after \<open>0x\<close>, octal after \<open>0\<close>, else decimal.
\<close>

definition hex_digit :: "u8 \<Rightarrow> nat option" where
  "hex_digit x =
     (if 48 \<le> unat x \<and> unat x < 58 then Some (unat x - 48)
      else if 97 \<le> unat x \<and> unat x < 103 then Some (unat x - 87)
      else if 65 \<le> unat x \<and> unat x < 71 then Some (unat x - 55)
      else None)"

definition hex_value :: "u8 list \<Rightarrow> nat" where
  "hex_value ds = foldl (\<lambda>n d. n * 16 + (case hex_digit d of Some v \<Rightarrow> v | None \<Rightarrow> 0)) 0 ds"

definition strtoul0 :: "u8 list \<Rightarrow> (64 word \<times> nat) option" where
  "strtoul0 s = do {
     (ws, s1) \<leftarrow> c_span is_space s;
     let (neg, s2) =
       (case s1 of
          x # xs \<Rightarrow> if x = 0x2D then (True, xs) else if x = 0x2B then (False, xs) else (False, s1)
        | [] \<Rightarrow> (False, s1));
     (n, ds, s3) \<leftarrow>
       (case s2 of
          x # y # z # zs \<Rightarrow>
            if x = 0x30 \<and> (y = 0x78 \<or> y = 0x58) \<and> hex_digit z \<noteq> None then do {
              (ds, s3) \<leftarrow> c_span (\<lambda>x. hex_digit x \<noteq> None) (z # zs);
              Some (hex_value ds, ds, s3)
            } else do {
              let base = (if x = 0x30 then 8 else 10);
              (ds, s3) \<leftarrow> c_span (is_digit base) s2;
              Some (digits_value base ds, ds, s3)
            }
        | x # xs \<Rightarrow> do {
            let base = (if x = 0x30 then 8 else 10);
            (ds, s3) \<leftarrow> c_span (is_digit base) s2;
            Some (digits_value base ds, ds, s3)
          }
        | [] \<Rightarrow> None);
     if ds = [] then Some (0, 0)
     else do {
       let v = (if n < 2 ^ 64 then (if neg then - word_of_nat n else word_of_nat n) else -1);
       Some (v, length s - length s3)
     }
   }"

end
