(* ===== verification/Context.thy ===== *)
theory Context
  imports Crc16 Lbuffer Libc
begin

text \<open>
  \<open>include/lmodem.h\<close>, \<open>src/lmodem_priv.h\<close> and \<open>src/lmodem_init.c\<close>: the modem context, its
  set-up, the file metadata and the two callbacks through which all input and output goes.
  The interface the transfers need of a callback is the locale \<open>serial_line\<close>.

  The record has every field of the C structure and one more, \<open>world\<close>: the state of what is
  outside the program, which the callbacks act on. A callback gets that state, and stores at most
  the bytes it returns through its \<open>data\<close> pointer; it does not write to the context.
  A NULL buffer is the empty object, which no access fits in.
\<close>

section \<open>Constants\<close>

definition SOH :: u8 where [simp]: "SOH = 0x01"
definition STX :: u8 where [simp]: "STX = 0x02"
definition EOT :: u8 where [simp]: "EOT = 0x04"
definition ACK :: u8 where [simp]: "ACK = 0x06"
definition NAK :: u8 where [simp]: "NAK = 0x15"
definition CAN :: u8 where [simp]: "CAN = 0x18"
definition SUB :: u8 where [simp]: "SUB = 0x1A"
definition char_C :: u8 where [simp]: "char_C = 0x43"

definition LXMODEM_CRC16_INIT_VALUE :: u16 where [simp]: "LXMODEM_CRC16_INIT_VALUE = 0"
definition LXMODEM_CRC16_XOR_FINAL :: u16 where [simp]: "LXMODEM_CRC16_XOR_FINAL = 0"
definition LXMODEM_HEADER_SIZE :: u32 where [simp]: "LXMODEM_HEADER_SIZE = 2"
definition LXMODEM_CHKSUM_SIZE :: u32 where [simp]: "LXMODEM_CHKSUM_SIZE = 1"
definition LXMODEM_CRC16_SIZE :: u32 where [simp]: "LXMODEM_CRC16_SIZE = 2"
definition LXMODEM_BLOCK_SIZE_128 :: u32 where [simp]: "LXMODEM_BLOCK_SIZE_128 = 128"
definition LXMODEM_BLOCK_SIZE_1024 :: u32 where [simp]: "LXMODEM_BLOCK_SIZE_1024 = 1024"

definition LMODEM_METADATA_FILENAME_VALID :: u32 where "LMODEM_METADATA_FILENAME_VALID = 0x01"
definition LMODEM_METADATA_FILESIZE_VALID :: u32 where "LMODEM_METADATA_FILESIZE_VALID = 0x02"
definition LMODEM_METADATA_MODIFDATE_VALID :: u32 where "LMODEM_METADATA_MODIFDATE_VALID = 0x04"
definition LMODEM_METADATA_PERMISSION_VALID :: u32 where "LMODEM_METADATA_PERMISSION_VALID = 0x08"
definition LMODEM_METADATA_SERIAL_VALID :: u32 where "LMODEM_METADATA_SERIAL_VALID = 0x10"

definition LXMODEM_CRC16_CCITT_POLYNOME :: u16 where "LXMODEM_CRC16_CCITT_POLYNOME = 0x1021"

section \<open>The context\<close>

datatype lmodem_protocol = XMODEM | YMODEM

datatype lxmodem_opts = Lxmodem_128_with_chksum | Lxmodem_128_with_crc | Lxmodem_1k

record lmodem_linebuffer =
  line_buffer :: "u8 list"
  line_current_size :: u32
  line_max_size :: u32

record lmodem_file_characteristics =
  valid :: u32
  filename :: "u8 list option"
  filename_size :: u32
  file_size :: u32
  modif_date :: u32
  permission :: u16
  serial_number :: u32

type_synonym 'w getchar_fun = "'w \<Rightarrow> u32 \<Rightarrow> ((bool \<times> u8 list) \<times> 'w) option"
type_synonym 'w putchar_fun = "'w \<Rightarrow> u8 list \<Rightarrow> 'w"

record 'w modem_context =
  protocol :: lmodem_protocol
  crc16 :: crc16_context
  opts :: lxmodem_opts
  blk_buffer :: lmodem_linebuffer
  ramfile :: lmodem_buffer
  file_data :: lmodem_file_characteristics
  withCrc :: bool
  getchar_cb :: "'w getchar_fun option"
  putchar_cb :: "'w putchar_fun option"
  world :: 'w

text \<open>A context before its initialisation, in a given world: the values are arbitrary.\<close>

definition unset_context :: "'w \<Rightarrow> 'w modem_context" where
  "unset_context w =
     \<lparr>protocol = YMODEM, crc16 = \<lparr>crctab = [], polynome = 0\<rparr>, opts = Lxmodem_128_with_crc,
      blk_buffer = \<lparr>line_buffer = [], line_current_size = 0, line_max_size = 0\<rparr>,
      ramfile = \<lparr>ram_buffer = [], ram_read_offset = 0, ram_write_offset = 0, ram_max_size = 0\<rparr>,
      file_data = \<lparr>valid = 0xFF, filename = None, filename_size = 0, file_size = 0, modif_date = 0,
                   permission = 0, serial_number = 0\<rparr>,
      withCrc = True, getchar_cb = None, putchar_cb = None, world = w\<rparr>"

section \<open>Initialisation\<close>

text \<open>\<open>memset(pThis, 0, sizeof(modem_context_t))\<close>: the world is not part of the structure.\<close>

definition memset_context :: "'w modem_context \<Rightarrow> 'w modem_context" where
  "memset_context c =
     \<lparr>protocol = XMODEM,
      crc16 = \<lparr>crctab = replicate 256 0, polynome = 0\<rparr>,
      opts = Lxmodem_128_with_chksum,
      blk_buffer = \<lparr>line_buffer = [], line_current_size = 0, line_max_size = 0\<rparr>,
      ramfile = \<lparr>ram_buffer = [], ram_read_offset = 0, ram_write_offset = 0, ram_max_size = 0\<rparr>,
      file_data = \<lparr>valid = 0, filename = None, filename_size = 0, file_size = 0, modif_date = 0,
                   permission = 0, serial_number = 0\<rparr>,
      withCrc = False, getchar_cb = None, putchar_cb = None, world = world c\<rparr>"

definition lmodem_init :: "'w modem_context \<Rightarrow> lxmodem_opts \<Rightarrow> 'w modem_context" where
  "lmodem_init c op =
     (let c = memset_context c; c = c\<lparr>opts := op\<rparr>
      in c\<lparr>crc16 := crc16_init (crc16 c) LXMODEM_CRC16_CCITT_POLYNOME\<rparr>)"

definition lmodem_set_putchar_cb :: "'w modem_context \<Rightarrow> 'w putchar_fun option \<Rightarrow> 'w modem_context" where
  "lmodem_set_putchar_cb c cb = c\<lparr>putchar_cb := cb\<rparr>"

definition lmodem_set_getchar_cb :: "'w modem_context \<Rightarrow> 'w getchar_fun option \<Rightarrow> 'w modem_context" where
  "lmodem_set_getchar_cb c cb = c\<lparr>getchar_cb := cb\<rparr>"

text \<open>The switch of \<open>lmodem_set_line_buffer\<close>: the size asked for, and the CRC flag.\<close>

fun line_buffer_expected_size :: "lxmodem_opts \<Rightarrow> u32" where
  "line_buffer_expected_size Lxmodem_128_with_chksum =
     LXMODEM_HEADER_SIZE + LXMODEM_BLOCK_SIZE_128 + LXMODEM_CHKSUM_SIZE"
| "line_buffer_expected_size Lxmodem_128_with_crc =
     LXMODEM_HEADER_SIZE + LXMODEM_BLOCK_SIZE_128 + LXMODEM_CRC16_SIZE"
| "line_buffer_expected_size Lxmodem_1k =
     LXMODEM_HEADER_SIZE + LXMODEM_BLOCK_SIZE_1024 + LXMODEM_CRC16_SIZE"

definition lmodem_set_line_buffer ::
  "'w modem_context \<Rightarrow> u8 list \<Rightarrow> u32 \<Rightarrow> bool \<times> 'w modem_context" where
  "lmodem_set_line_buffer c buffer sz =
     (let expectedSize = line_buffer_expected_size (opts c);
          c = c\<lparr>withCrc := (opts c \<noteq> Lxmodem_128_with_chksum)\<rparr>
      in if expectedSize \<le> sz
         then (True, c\<lparr>blk_buffer :=
                \<lparr>line_buffer = buffer, line_current_size = 0, line_max_size = sz\<rparr>\<rparr>)
         else (False, c))"

definition lmodem_set_file_buffer :: "'w modem_context \<Rightarrow> u8 list \<Rightarrow> u32 \<Rightarrow> 'w modem_context" where
  "lmodem_set_file_buffer c buffer sz =
     c\<lparr>ramfile := lmodem_buffer_init (ramfile c) buffer sz\<rparr>"

definition lmodem_set_filename_buffer ::
  "'w modem_context \<Rightarrow> u8 list option \<Rightarrow> u32 \<Rightarrow> 'w modem_context" where
  "lmodem_set_filename_buffer c buffer sz =
     c\<lparr>file_data := (file_data c)\<lparr>filename := buffer, filename_size := sz\<rparr>\<rparr>"

section \<open>Metadata\<close>

definition lmodem_metadata_set_filename ::
  "'w modem_context \<Rightarrow> u8 list \<Rightarrow> 'w modem_context option" where
  "lmodem_metadata_set_filename c name =
     (let fd = file_data c
      in case filename fd of
           None \<Rightarrow> Some c
         | Some buf \<Rightarrow> do {
             buf \<leftarrow> strncpy buf 0 name (unat (filename_size fd));
             buf \<leftarrow> mem_write buf (unat (filename_size fd - 1)) 0;
             Some (c\<lparr>file_data := fd\<lparr>filename := Some buf,
                      valid := valid fd OR LMODEM_METADATA_FILENAME_VALID\<rparr>\<rparr>)
           })"

definition lmodem_metadata_set_filesize :: "'w modem_context \<Rightarrow> u32 \<Rightarrow> 'w modem_context" where
  "lmodem_metadata_set_filesize c sz =
     c\<lparr>file_data := (file_data c)\<lparr>file_size := sz,
        valid := valid (file_data c) OR LMODEM_METADATA_FILESIZE_VALID\<rparr>\<rparr>"

definition lmodem_metadata_set_modif_time :: "'w modem_context \<Rightarrow> u32 \<Rightarrow> 'w modem_context" where
  "lmodem_metadata_set_modif_time c date =
     c\<lparr>file_data := (file_data c)\<lparr>modif_date := date,
        valid := valid (file_data c) OR LMODEM_METADATA_MODIFDATE_VALID\<rparr>\<rparr>"

text \<open>The \<open>uint32_t\<close> argument is stored in a \<open>uint16_t\<close> field.\<close>

definition lmodem_metadata_set_permission :: "'w modem_context \<Rightarrow> u32 \<Rightarrow> 'w modem_context" where
  "lmodem_metadata_set_permission c perm =
     c\<lparr>file_data := (file_data c)\<lparr>permission := ucast perm,
        valid := valid (file_data c) OR LMODEM_METADATA_PERMISSION_VALID\<rparr>\<rparr>"

definition lmodem_metadata_set_serial :: "'w modem_context \<Rightarrow> u32 \<Rightarrow> 'w modem_context" where
  "lmodem_metadata_set_serial c serial =
     c\<lparr>file_data := (file_data c)\<lparr>serial_number := serial,
        valid := valid (file_data c) OR LMODEM_METADATA_SERIAL_VALID\<rparr>\<rparr>"

text \<open>
  The readers take the caller's cell (\<open>None\<close> for a NULL pointer) and return it, with the result.
  All five test the file name's flag.
\<close>

definition filename_valid :: "'w modem_context \<Rightarrow> bool" where
  "filename_valid c \<longleftrightarrow>
     valid (file_data c) AND LMODEM_METADATA_FILENAME_VALID = LMODEM_METADATA_FILENAME_VALID"

definition lmodem_metadata_get_filename ::
  "'w modem_context \<Rightarrow> u8 list option \<Rightarrow> u32 \<Rightarrow> (bool \<times> u8 list option) option" where
  "lmodem_metadata_get_filename c dst sz =
     (if filename_valid c then
        (case dst of
           None \<Rightarrow> Some (False, None)
         | Some buf \<Rightarrow> do {
             src \<leftarrow> filename (file_data c);
             bytes \<leftarrow> mem_get src 0 (unat sz);
             buf \<leftarrow> mem_put buf 0 bytes;
             buf \<leftarrow> mem_write buf (unat (sz - 1)) 0;
             Some (True, Some buf)
           })
      else Some (False, dst))"

definition lmodem_metadata_get_filesize ::
  "'w modem_context \<Rightarrow> u32 option \<Rightarrow> bool \<times> u32 option" where
  "lmodem_metadata_get_filesize c dst =
     (if filename_valid c then
        (case dst of None \<Rightarrow> (False, None) | Some _ \<Rightarrow> (True, Some (file_size (file_data c))))
      else (False, dst))"

definition lmodem_metadata_get_modif_time ::
  "'w modem_context \<Rightarrow> u32 option \<Rightarrow> bool \<times> u32 option" where
  "lmodem_metadata_get_modif_time c dst =
     (if filename_valid c then
        (case dst of None \<Rightarrow> (False, None) | Some _ \<Rightarrow> (True, Some (modif_date (file_data c))))
      else (False, dst))"

definition lmodem_metadata_get_permission ::
  "'w modem_context \<Rightarrow> u32 option \<Rightarrow> bool \<times> u32 option" where
  "lmodem_metadata_get_permission c dst =
     (if filename_valid c then
        (case dst of
           None \<Rightarrow> (False, None)
         | Some _ \<Rightarrow> (True, Some (ucast (permission (file_data c)))))
      else (False, dst))"

definition lmodem_metadata_get_serial ::
  "'w modem_context \<Rightarrow> u32 option \<Rightarrow> bool \<times> u32 option" where
  "lmodem_metadata_get_serial c dst =
     (if filename_valid c then
        (case dst of
           None \<Rightarrow> (False, None)
         | Some _ \<Rightarrow> (True, Some (serial_number (file_data c))))
      else (False, dst))"

section \<open>The callbacks\<close>

definition lmodem_putchar :: "'w modem_context \<Rightarrow> u8 list \<Rightarrow> 'w modem_context option" where
  "lmodem_putchar c data = do { cb \<leftarrow> putchar_cb c; Some (c\<lparr>world := cb (world c) data\<rparr>) }"

text \<open>A callback that stores more than the \<open>n\<close> bytes it was asked for has overrun its target.\<close>

definition lmodem_getchar ::
  "'w modem_context \<Rightarrow> u32 \<Rightarrow> (bool \<times> u8 list \<times> 'w modem_context) option" where
  "lmodem_getchar c n = do {
     cb \<leftarrow> getchar_cb c;
     ((ok, data), w) \<leftarrow> cb (world c) n;
     if length data \<le> unat n then Some (ok, data, c\<lparr>world := w\<rparr>) else None
   }"

text \<open>
  The two uses of \<open>lmodem_getchar\<close>: one byte into a local variable, whose value is used only
  after a success, and a whole block into the line buffer.
\<close>

definition lmodem_getchar_byte ::
  "'w modem_context \<Rightarrow> (u8 option \<times> 'w modem_context) option" where
  "lmodem_getchar_byte c = do {
     (ok, data, c) \<leftarrow> lmodem_getchar c 1;
     if ok then (case data of [x] \<Rightarrow> Some (Some x, c) | _ \<Rightarrow> None) else Some (None, c)
   }"

definition lmodem_getchar_block ::
  "'w modem_context \<Rightarrow> u32 \<Rightarrow> (bool \<times> 'w modem_context) option" where
  "lmodem_getchar_block c n = do {
     (ok, data, c) \<leftarrow> lmodem_getchar c n;
     buf \<leftarrow> mem_put (line_buffer (blk_buffer c)) 0 data;
     Some (ok, c\<lparr>blk_buffer := (blk_buffer c)\<lparr>line_buffer := buf\<rparr>\<rparr>)
   }"

section \<open>What every transfer keeps\<close>

text \<open>
  A transfer changes the world, the bytes of the line buffer, and the RAM file; the rest of
  the context, the two callbacks included, is the caller's set-up.
\<close>

definition same_setup :: "'w modem_context \<Rightarrow> 'w modem_context \<Rightarrow> bool" where
  "same_setup c c' \<longleftrightarrow>
     protocol c' = protocol c \<and> crc16 c' = crc16 c \<and> opts c' = opts c \<and> withCrc c' = withCrc c \<and>
     getchar_cb c' = getchar_cb c \<and> putchar_cb c' = putchar_cb c \<and> file_data c' = file_data c \<and>
     line_max_size (blk_buffer c') = line_max_size (blk_buffer c) \<and>
     length (line_buffer (blk_buffer c')) = length (line_buffer (blk_buffer c))"

lemma same_setup_refl [simp]: "same_setup c c"
  by (simp add: same_setup_def)

lemma same_setup_trans [trans]: "same_setup a b \<Longrightarrow> same_setup b c \<Longrightarrow> same_setup a c"
  by (simp add: same_setup_def)

lemma same_setup_world [simp]: "same_setup c (c'\<lparr>world := w\<rparr>) = same_setup c c'"
  by (simp add: same_setup_def)

lemma same_setup_ramfile [simp]: "same_setup c (c'\<lparr>ramfile := r\<rparr>) = same_setup c c'"
  by (simp add: same_setup_def)

text \<open>The CRC table every context of \<open>lmodem_init\<close> has.\<close>

definition crc_ok :: "'w modem_context \<Rightarrow> bool" where
  "crc_ok c \<longleftrightarrow> crc16_ready LXMODEM_CRC16_CCITT_POLYNOME (crc16 c)"

lemma lmodem_init_crc_ok [simp]: "crc_ok (lmodem_init c op)"
  by (simp add: crc_ok_def lmodem_init_def Let_def)

lemma putchar_returns:
  "putchar_cb c = Some p \<Longrightarrow> lmodem_putchar c data = Some (c\<lparr>world := p (world c) data\<rparr>)"
  by (simp add: lmodem_putchar_def)

section \<open>The interface: a serial line\<close>

text \<open>
  What a transfer relies on: a read returns, stores no more than it was asked for, and a
  successful read stores exactly that.
\<close>

locale serial_line =
  fixes getc :: "'w getchar_fun"
  assumes getc_returns: "\<exists>ok data w'. getc w n = Some ((ok, data), w') \<and>
    length data \<le> unat n \<and> (ok \<longrightarrow> length data = unat n)"
begin

lemma getchar_returns:
  assumes "getchar_cb c = Some getc"
  shows "\<exists>ok data w'. getc (world c) n = Some ((ok, data), w') \<and>
    lmodem_getchar c n = Some (ok, data, c\<lparr>world := w'\<rparr>) \<and> length data \<le> unat n \<and>
    (ok \<longrightarrow> length data = unat n)"
proof -
  obtain ok data w' where "getc (world c) n = Some ((ok, data), w')" "length data \<le> unat n"
    "ok \<longrightarrow> length data = unat n"
    using getc_returns by blast
  with assms show ?thesis by (simp add: lmodem_getchar_def)
qed

lemma getchar_byte_returns:
  assumes "getchar_cb c = Some getc"
  shows "\<exists>got w'. lmodem_getchar_byte c = Some (got, c\<lparr>world := w'\<rparr>)"
proof -
  obtain ok data w' where "lmodem_getchar c 1 = Some (ok, data, c\<lparr>world := w'\<rparr>)"
    "ok \<longrightarrow> length data = 1"
    using getchar_returns [OF assms, of 1] by auto
  then show ?thesis by (cases ok) (auto simp: lmodem_getchar_byte_def length_Suc_conv)
qed

lemma getchar_block_returns:
  assumes "getchar_cb c = Some getc" and "unat n \<le> length (line_buffer (blk_buffer c))"
  shows "\<exists>ok w' buf. lmodem_getchar_block c n =
      Some (ok, c\<lparr>world := w', blk_buffer := (blk_buffer c)\<lparr>line_buffer := buf\<rparr>\<rparr>) \<and>
      length buf = length (line_buffer (blk_buffer c))"
proof -
  obtain ok data w' where got: "lmodem_getchar c n = Some (ok, data, c\<lparr>world := w'\<rparr>)"
    "length data \<le> unat n"
    using getchar_returns [OF assms(1)] by blast
  with assms(2) obtain buf where buf: "mem_put (line_buffer (blk_buffer c)) 0 data = Some buf"
    by (simp add: mem_put_def)
  with got mem_put_length [OF buf] show ?thesis by (auto simp: lmodem_getchar_block_def)
qed

end

section \<open>Metadata read back\<close>

lemma filename_flag:
  "v AND LMODEM_METADATA_FILENAME_VALID = LMODEM_METADATA_FILENAME_VALID \<longleftrightarrow> odd v"
  by (simp add: LMODEM_METADATA_FILENAME_VALID_def and_one_eq odd_iff_mod_2_eq_one)

lemmas metadata_defs =
  lmodem_metadata_set_filesize_def lmodem_metadata_set_modif_time_def
  lmodem_metadata_set_permission_def lmodem_metadata_set_serial_def
  lmodem_metadata_get_filesize_def lmodem_metadata_get_modif_time_def
  lmodem_metadata_get_permission_def lmodem_metadata_get_serial_def
  filename_valid_def

text \<open>The name the buffer of \<open>n\<close> bytes holds: cut or padded to \<open>n - 1\<close> bytes, then a zero.\<close>

definition stored_name :: "nat \<Rightarrow> u8 list \<Rightarrow> u8 list" where
  "stored_name n name = take (n - 1) (name @ replicate n 0) @ [0]"

lemma length_stored_name: "0 < n \<Longrightarrow> length (stored_name n name) = n"
  by (simp add: stored_name_def)

lemma strncpy_bytes_name:
  "is_text name \<Longrightarrow> strncpy_bytes (name @ 0 # rest) n = Some (take n (name @ replicate n 0))"
  using strncpy_bytes_text [of name n rest] strncpy_bytes_cut [of name n "0 # rest"]
  by (cases "length name \<le> n") (auto simp: min_def)

lemma set_filename_returns:
  assumes name: "is_text name" and fd: "filename (file_data c) = Some buf"
    and n: "unat (filename_size (file_data c)) = n" "0 < n" "n \<le> length buf"
  shows "lmodem_metadata_set_filename c (name @ 0 # rest) =
    Some (c\<lparr>file_data := (file_data c)\<lparr>filename := Some (stored_name n name @ drop n buf),
      valid := valid (file_data c) OR LMODEM_METADATA_FILENAME_VALID\<rparr>\<rparr>)"
proof -
  let ?bs = "take n (name @ replicate n 0)"
  have n1: "unat (filename_size (file_data c) - 1) = n - 1"
    using n by (simp add: unat_u32_sub)
  have len: "length ?bs = n" by simp
  have "mem_put buf 0 ?bs = Some (?bs @ drop n buf)"
    using n(3) len by (simp add: mem_put_def)
  moreover have "mem_write (?bs @ drop n buf) (n - 1) 0 = Some (stored_name n name @ drop n buf)"
  proof -
    have bs: "?bs = take (n - 1) (name @ replicate n 0) @ [(name @ replicate n 0) ! (n - 1)]"
      using n(2) take_Suc_conv_app_nth [of "n - 1" "name @ replicate n 0"] by simp
    have "n - 1 = length (take (n - 1) (name @ replicate n (0 :: u8)))" by simp
    from mem_write_next [OF this, of "(name @ replicate n 0) ! (n - 1) # drop n buf" 0]
    show ?thesis by (simp only: bs append_assoc) (simp add: stored_name_def)
  qed
  ultimately show ?thesis
    using name fd n n1 by (simp add: lmodem_metadata_set_filename_def strncpy_def strncpy_bytes_name Let_def)
qed

section \<open>Properties\<close>

text \<open>
  C25: What the five setters of the file's metadata store, the five getters read back: the
  size, the date, the serial number, the low 16 bits of the permission, and the name, cut to
  the buffer with its terminator. The name's setter and getter stay inside the buffers.
\<close>

theorem metadata_set_get:
  assumes "is_text name" and "filename (file_data c) = Some buf"
    and "filename_size (file_data c) = n" "0 < n" "unat n \<le> length buf" "unat n \<le> length dst"
  shows "\<exists>c'. lmodem_metadata_set_filename
      (lmodem_metadata_set_serial (lmodem_metadata_set_permission (lmodem_metadata_set_modif_time
        (lmodem_metadata_set_filesize c sz) date) perm) ser) (name @ [0]) = Some c' \<and>
    lmodem_metadata_get_filename c' (Some dst) n =
      Some (True, Some (stored_name (unat n) name @ drop (unat n) dst)) \<and>
    lmodem_metadata_get_filesize c' (Some x) = (True, Some sz) \<and>
    lmodem_metadata_get_modif_time c' (Some x) = (True, Some date) \<and>
    lmodem_metadata_get_permission c' (Some x) = (True, Some (ucast (ucast perm :: u16))) \<and>
    lmodem_metadata_get_serial c' (Some x) = (True, Some ser)"
proof -
  let ?c = "lmodem_metadata_set_serial (lmodem_metadata_set_permission (lmodem_metadata_set_modif_time
        (lmodem_metadata_set_filesize c sz) date) perm) ser"
  have n: "0 < unat n" "unat (n - 1) = unat n - 1"
    using assms(4) by (simp_all add: word_less_nat_alt unat_u32_sub)
  have fd: "filename (file_data ?c) = Some buf" "unat (filename_size (file_data ?c)) = unat n"
    using assms(2,3) by (simp_all add: metadata_defs)
  note set = set_filename_returns [OF assms(1) fd n(1) assms(5), of "[]"]
  have len: "length (stored_name (unat n) name) = unat n" using n(1) by (rule length_stored_name)
  have "mem_write (stored_name (unat n) name @ drop (unat n) dst) (unat n - 1) 0
      = Some (stored_name (unat n) name @ drop (unat n) dst)"
    using mem_write_next [of "unat n - 1" "take (unat n - 1) (name @ replicate (unat n) 0)"
        "0 # drop (unat n) dst" 0] by (simp add: stored_name_def)
  then have "lmodem_metadata_get_filename (the (lmodem_metadata_set_filename ?c (name @ [0]))) (Some dst) n =
      Some (True, Some (stored_name (unat n) name @ drop (unat n) dst))"
    using set n assms(6) len
    by (simp add: lmodem_metadata_get_filename_def filename_valid_def filename_flag even_or_iff
        LMODEM_METADATA_FILENAME_VALID_def mem_get_def mem_put_def)
  with set show ?thesis
    by (simp add: metadata_defs filename_flag even_or_iff LMODEM_METADATA_FILENAME_VALID_def)
qed

theorem metadata_set_get_witness:
  "\<exists>c'. lmodem_metadata_set_filename
      (lmodem_metadata_set_serial (lmodem_metadata_set_permission (lmodem_metadata_set_modif_time
        (lmodem_metadata_set_filesize
          (lmodem_set_filename_buffer (memset_context (unset_context ())) (Some (replicate 4 0)) 4) 10) 20) 0x81A4) 7)
      [0x61, 0x62, 0x63, 0x64, 0x65, 0] = Some c' \<and>
    lmodem_metadata_get_filename c' (Some [1, 1, 1, 1, 1]) 4 = Some (True, Some [0x61, 0x62, 0x63, 0, 1]) \<and>
    lmodem_metadata_get_filesize c' (Some 0) = (True, Some 10)"
  using metadata_set_get [where name = "[0x61, 0x62, 0x63, 0x64, 0x65]"
      and c = "lmodem_set_filename_buffer (memset_context (unset_context ())) (Some (replicate 4 0)) 4"
      and buf = "replicate 4 0" and n = 4 and dst = "[1, 1, 1, 1, 1]"
      and sz = 10 and date = 20 and perm = "0x81A4" and ser = 7 and x = 0]
  by (auto simp: is_text_def lmodem_set_filename_buffer_def stored_name_def)

text \<open>
  Without a file name there is no metadata to read: all five getters test the name's flag,
  so a size, date, permission or serial number that was set is refused (and the caller's cell
  left alone) as long as no name was set.
\<close>

lemma metadata_needs_filename:
  assumes "valid (file_data c) = 0"
  shows "lmodem_metadata_get_filesize (lmodem_metadata_set_filesize c sz) dst = (False, dst) \<and>
    lmodem_metadata_get_modif_time (lmodem_metadata_set_modif_time c date) dst = (False, dst) \<and>
    lmodem_metadata_get_permission (lmodem_metadata_set_permission c perm) dst = (False, dst) \<and>
    lmodem_metadata_get_serial (lmodem_metadata_set_serial c ser) dst = (False, dst)"
  using assms
  by (simp_all add: metadata_defs filename_flag LMODEM_METADATA_FILESIZE_VALID_def
      LMODEM_METADATA_MODIFDATE_VALID_def LMODEM_METADATA_PERMISSION_VALID_def
      LMODEM_METADATA_SERIAL_VALID_def)

end
