(* ===== verification/Block.thy ===== *)
theory Block
  imports Context
begin

text \<open>
  \<open>src/lmodem_rx.c\<close>: one block as the receiver checks it (\<open>lxmodem_calcul_chksum\<close>,
  \<open>lxmodem_check_crc\<close>, \<open>lxmodem_check_block_no_and_crc\<close>, \<open>lxmodem_receive_block\<close>). A block is
  good exactly when the line buffer starts with the frame of its data (\<open>check_block_OK_iff\<close>),
  and no frame turns into another one by the corruption of one byte (locale
  \<open>integrity_check\<close>, for the checksum and for the CRC) or, with the CRC, of two neighbours.
\<close>

section \<open>One block\<close>

datatype lxmodem_reception_status =
  LXMODEM_RECV_OK | LXMODEM_RECV_PREVIOUS_BLOCK | LXMODEM_RECV_ERROR

definition lxmodem_calcul_chksum :: "u8 list \<Rightarrow> u8" where
  "lxmodem_calcul_chksum data = foldl (+) 0 data"

text \<open>The condition of \<open>lxmodem_receive_block\<close> and \<open>lxmodem_check_crc\<close> that a CRC is used.\<close>

definition block_with_crc :: "'w modem_context \<Rightarrow> u32 \<Rightarrow> bool" where
  "block_with_crc c requestedBlksize \<longleftrightarrow>
     withCrc c \<or> protocol c = YMODEM \<or> requestedBlksize > LXMODEM_BLOCK_SIZE_128"

definition lxmodem_check_crc ::
  "'w modem_context \<Rightarrow> u32 \<Rightarrow> lxmodem_reception_status option" where
  "lxmodem_check_crc c requestedBlksize =
     (let buffer = line_buffer (blk_buffer c);
          hd = unat LXMODEM_HEADER_SIZE;
          sz = unat requestedBlksize
      in if block_with_crc c requestedBlksize then do {
           data \<leftarrow> mem_get buffer hd sz;
           let crc = crc16_doCalcul (crc16 c) data LXMODEM_CRC16_INIT_VALUE LXMODEM_CRC16_XOR_FINAL;
           hi \<leftarrow> mem_read buffer (hd + sz);
           if crc_hi crc = hi then do {
             lo \<leftarrow> mem_read buffer (hd + sz + 1);
             Some (if crc_lo crc = lo then LXMODEM_RECV_OK else LXMODEM_RECV_ERROR)
           } else Some LXMODEM_RECV_ERROR
         } else do {
           data \<leftarrow> mem_get buffer hd sz;
           chksum \<leftarrow> mem_read buffer (sz + hd);
           Some (if lxmodem_calcul_chksum data = chksum then LXMODEM_RECV_OK
                 else LXMODEM_RECV_ERROR)
         })"

text \<open>\<open>buffer[0] == n && buffer[1] == (uint8_t) ~n\<close>\<close>

definition block_number_is :: "u8 list \<Rightarrow> u8 \<Rightarrow> bool option" where
  "block_number_is buffer n = do {
     b0 \<leftarrow> mem_read buffer 0;
     if b0 = n then do { b1 \<leftarrow> mem_read buffer 1; Some (b1 = NOT n) } else Some False
   }"

definition lxmodem_check_block_no_and_crc ::
  "'w modem_context \<Rightarrow> u8 \<Rightarrow> u32 \<Rightarrow> lxmodem_reception_status option" where
  "lxmodem_check_block_no_and_crc c expectedBlkNumber requestedBlksize = do {
     expected \<leftarrow> block_number_is (line_buffer (blk_buffer c)) expectedBlkNumber;
     rcvStatus \<leftarrow>
       (if expected then Some LXMODEM_RECV_OK
        else do {
          previous \<leftarrow> block_number_is (line_buffer (blk_buffer c)) (expectedBlkNumber - 1);
          Some (if previous then LXMODEM_RECV_PREVIOUS_BLOCK else LXMODEM_RECV_ERROR)
        });
     if rcvStatus = LXMODEM_RECV_OK then lxmodem_check_crc c requestedBlksize
     else Some rcvStatus
   }"

definition lxmodem_receive_block ::
  "'w modem_context \<Rightarrow> u8 \<Rightarrow> u32 \<Rightarrow> (lxmodem_reception_status \<times> 'w modem_context) option" where
  "lxmodem_receive_block c expectedBlkNumber requestedBlksize = do {
     let requestedData = requestedBlksize + LXMODEM_HEADER_SIZE +
       (if block_with_crc c requestedBlksize then LXMODEM_CRC16_SIZE else LXMODEM_CHKSUM_SIZE);
     (bReceived, c) \<leftarrow> lmodem_getchar_block c requestedData;
     if bReceived then do {
       rcvStatus \<leftarrow> lxmodem_check_block_no_and_crc c expectedBlkNumber requestedBlksize;
       Some (rcvStatus, c)
     } else Some (LXMODEM_RECV_ERROR, c)
   }"

section \<open>Frames\<close>

text \<open>
  The shape of a block on the wire after its SOH or STX: the number, its complement, the
  data, and the CRC or the checksum of the data.
\<close>

definition block_trailer :: "bool \<Rightarrow> crc16_context \<Rightarrow> u8 list \<Rightarrow> u8 list" where
  "block_trailer with_crc ctx data =
     (if with_crc then
        [crc_hi (crc16_doCalcul ctx data LXMODEM_CRC16_INIT_VALUE LXMODEM_CRC16_XOR_FINAL),
         crc_lo (crc16_doCalcul ctx data LXMODEM_CRC16_INIT_VALUE LXMODEM_CRC16_XOR_FINAL)]
      else [lxmodem_calcul_chksum data])"

definition block_frame :: "bool \<Rightarrow> crc16_context \<Rightarrow> u8 \<Rightarrow> u8 list \<Rightarrow> u8 list" where
  "block_frame with_crc ctx n data = [n, NOT n] @ data @ block_trailer with_crc ctx data"

lemma length_block_trailer: "length (block_trailer with_crc ctx data) = (if with_crc then 2 else 1)"
  by (simp add: block_trailer_def)

lemma length_block_frame:
  "length (block_frame with_crc ctx n data) = length data + (if with_crc then 4 else 3)"
  by (simp add: block_frame_def length_block_trailer)

text \<open>How many bytes a block of the given size needs in the line buffer.\<close>

definition frame_size :: "'w modem_context \<Rightarrow> u32 \<Rightarrow> nat" where
  "frame_size c k = unat k + (if block_with_crc c k then 4 else 3)"

lemma frame_world [simp]:
  "block_with_crc (c\<lparr>world := w\<rparr>) k = block_with_crc c k"
  "frame_size (c\<lparr>world := w\<rparr>) k = frame_size c k"
  by (simp_all add: block_with_crc_def frame_size_def)

lemma block_number_is_Some:
  "2 \<le> length buffer \<Longrightarrow> block_number_is buffer n = Some (take 2 buffer = [n, NOT n])"
  by (cases buffer rule: list.exhaust [case_product list.exhaust, of _ "tl buffer"])
    (auto simp: block_number_is_def mem_simps)

lemma word_NOT_inj: "NOT a = NOT b \<longleftrightarrow> a = (b :: 'a :: len word)"
  by (metis bit.double_compl)

lemma check_crc_Some:
  assumes "frame_size c k \<le> length (line_buffer (blk_buffer c))"
  shows "lxmodem_check_crc c k = Some
    (if take (frame_size c k - 2 - unat k) (drop (2 + unat k) (line_buffer (blk_buffer c)))
        = block_trailer (block_with_crc c k) (crc16 c)
            (take (unat k) (drop 2 (line_buffer (blk_buffer c))))
     then LXMODEM_RECV_OK else LXMODEM_RECV_ERROR)"
proof -
  let ?buf = "line_buffer (blk_buffer c)"
  have one: "take 1 (drop i ?buf) = [?buf ! i]" if "i < length ?buf" for i
    using that by (simp add: take_Suc_conv_app_nth)
  have two: "take 2 (drop i ?buf) = [?buf ! i, ?buf ! Suc i]" if "Suc i < length ?buf" for i
    using that by (simp add: numeral_2_eq_2 take_Suc_conv_app_nth)
  show ?thesis
    using assms one [of "2 + unat k"] two [of "2 + unat k"]
    by (auto simp: lxmodem_check_crc_def frame_size_def block_trailer_def mem_simps Let_def)
qed

lemma check_block_Some:
  assumes "frame_size c k \<le> length (line_buffer (blk_buffer c))"
  shows "lxmodem_check_block_no_and_crc c n k =
    (if take 2 (line_buffer (blk_buffer c)) = [n, NOT n] then lxmodem_check_crc c k
     else if take 2 (line_buffer (blk_buffer c)) = [n - 1, NOT (n - 1)]
     then Some LXMODEM_RECV_PREVIOUS_BLOCK else Some LXMODEM_RECV_ERROR)"
proof -
  have "2 \<le> length (line_buffer (blk_buffer c))"
    using assms by (auto simp: frame_size_def split: if_splits)
  then show ?thesis
    by (simp add: lxmodem_check_block_no_and_crc_def block_number_is_Some)
qed

text \<open>A block is good exactly when the line buffer starts with its frame.\<close>

lemma check_block_OK_iff:
  assumes "frame_size c k \<le> length (line_buffer (blk_buffer c))"
  shows "lxmodem_check_block_no_and_crc c n k = Some LXMODEM_RECV_OK \<longleftrightarrow>
    take (frame_size c k) (line_buffer (blk_buffer c)) =
    block_frame (block_with_crc c k) (crc16 c) n (take (unat k) (drop 2 (line_buffer (blk_buffer c))))"
proof -
  let ?buf = "line_buffer (blk_buffer c)"
  define m where "m = frame_size c k - 2 - unat k"
  have size: "frame_size c k = 2 + unat k + m"
    by (auto simp: m_def frame_size_def)
  have split: "take (frame_size c k) ?buf
      = take 2 ?buf @ take (unat k) (drop 2 ?buf) @ take m (drop (2 + unat k) ?buf)"
    by (simp only: size take_add append_assoc)
  have "length (take 2 ?buf) = length [n, NOT n]"
    using assms size by simp
  note heads = append_eq_append_conv [OF disjI1, OF this]
  show ?thesis
    unfolding split block_frame_def heads
    by (auto simp: check_block_Some [OF assms] check_crc_Some [OF assms] m_def)
qed

section \<open>The interface: an integrity check\<close>

text \<open>
  What the block check relies on: no two messages of one length with their trailers differ in
  exactly one byte.
\<close>

locale integrity_check =
  fixes trailer :: "u8 list \<Rightarrow> u8 list"
  assumes detects_byte: "xs @ a # ys = d @ trailer d \<Longrightarrow> xs @ b # ys = d' @ trailer d' \<Longrightarrow>
      length d = length d' \<Longrightarrow> a = b"
begin

text \<open>With the number and its complement in front, the same holds of whole frames.\<close>

lemma frame_detects_byte:
  assumes f: "xs @ a # ys = [n, NOT n] @ d @ trailer d"
    and f': "xs @ b # ys = [n', NOT n'] @ d' @ trailer d'" and len: "length d = length d'"
  shows "a = b"
proof -
  consider "xs = []" | x where "xs = [x]" | x y zs where "xs = x # y # zs"
    by (metis neq_Nil_conv)
  then show ?thesis
  proof cases
    case 1
    with f f' have "NOT a = NOT b" by (cases ys) auto
    then show ?thesis by (simp only: word_NOT_inj)
  next
    case 2
    with f f' show ?thesis by simp
  next
    case 3
    with f f' have "zs @ a # ys = d @ trailer d" "zs @ b # ys = d' @ trailer d'" by simp_all
    then show ?thesis using len by (rule detects_byte)
  qed
qed

end

lemma foldl_plus_shift: "foldl (+) (s + t) xs = s + foldl (+) t (xs :: u8 list)"
  by (induction xs arbitrary: t) (simp_all add: add.assoc)

lemma chksum_append [simp]:
  "lxmodem_calcul_chksum (xs @ ys) = lxmodem_calcul_chksum xs + lxmodem_calcul_chksum ys"
  using foldl_plus_shift [of "foldl (+) 0 xs" 0 ys] by (simp add: lxmodem_calcul_chksum_def)

lemma chksum_Cons [simp]: "lxmodem_calcul_chksum (x # xs) = x + lxmodem_calcul_chksum xs"
  using foldl_plus_shift [of x 0 xs] by (simp add: lxmodem_calcul_chksum_def)

text \<open>Where a byte can sit in a message with a trailer.\<close>

lemma split_at_length:
  assumes "xs @ a # ys = d @ t" and "xs @ b # ys = d' @ t'" and "length d = length d'"
  obtains (data) zs where "d = xs @ a # zs" "d' = xs @ b # zs" "ys = zs @ t" "t = t'"
  | (trailer) zs where "xs = d @ zs" "d = d'" "t = zs @ a # ys" "t' = zs @ b # ys"
proof (cases "length d \<le> length xs")
  case True
  with assms obtain zs where "xs = d @ zs" "a # ys = drop (length zs) t"
    by (metis append_eq_append_conv_if append_take_drop_id append_eq_conv_conj drop_append)
  with True assms trailer show ?thesis
    by (metis append.assoc append_eq_append_conv)
next
  case False
  then obtain k where k: "length d = Suc (length xs + k)"
    by (metis add_Suc_right less_iff_Suc_add not_le)
  have "d = take (length d) (xs @ a # ys)" "d' = take (length d) (xs @ b # ys)"
    "t = drop (length d) (xs @ a # ys)" "t' = drop (length d) (xs @ b # ys)"
    using assms by simp_all
  with k show ?thesis
    using data [of "take k ys"] by simp
qed

lemma chksum_detects_byte:
  assumes "xs @ a # ys = d @ block_trailer False ctx d"
    and "xs @ b # ys = d' @ block_trailer False ctx d'" and "length d = length d'"
  shows "a = b"
  using assms
proof (cases rule: split_at_length)
  case (data zs)
  then show ?thesis by (simp add: block_trailer_def)
next
  case (trailer zs)
  then show ?thesis by (auto simp: block_trailer_def)
qed

interpretation chksum: integrity_check "block_trailer False ctx" for ctx
  by unfold_locales (rule chksum_detects_byte)

text \<open>A message and its CRC leave the register at zero.\<close>

lemma crc_trailer_residue:
  assumes "crc16_ready poly ctx"
  shows "crc_serial poly 0 (d @ block_trailer True ctx d) = 0"
  using crc_serial_residue [of poly "crc_serial poly 0 d"]
  by (simp add: block_trailer_def crc16_doCalcul_serial [OF assms] del: crc_serial_Cons)

lemma crc_detects_byte:
  assumes "crc16_ready poly ctx" and "bit poly 0"
    and "xs @ a # ys = d @ block_trailer True ctx d"
    and "xs @ b # ys = d' @ block_trailer True ctx d'"
  shows "a = b"
  using crc_trailer_residue [OF assms(1), of d] crc_trailer_residue [OF assms(1), of d']
    crc_serial_detects_byte [OF assms(2), of 0 xs a ys b]
  by (simp only: assms(3,4) [symmetric] simp_thms)

lemma crc_detects_burst:
  assumes "crc16_ready poly ctx" and "bit poly 0"
    and "xs @ a # b # ys = d @ block_trailer True ctx d"
    and "xs @ a' # b' # ys = d' @ block_trailer True ctx d'"
  shows "a = a' \<and> b = b'"
  using crc_trailer_residue [OF assms(1), of d] crc_trailer_residue [OF assms(1), of d']
    crc_serial_detects_burst [OF assms(2), of 0 xs a b ys a' b']
  by (simp only: assms(3,4) [symmetric] simp_thms)

lemma ccitt_odd [simp]: "bit LXMODEM_CRC16_CCITT_POLYNOME 0"
  by (simp add: LXMODEM_CRC16_CCITT_POLYNOME_def)

interpretation ccitt: integrity_check
  "block_trailer True (crc16_init ctx LXMODEM_CRC16_CCITT_POLYNOME)" for ctx
  by unfold_locales (rule crc_detects_byte [OF crc16_ready_init ccitt_odd])

text \<open>Only the table matters, so every context of \<open>lmodem_init\<close> has these trailers.\<close>

lemma block_trailer_table:
  "crctab ctx = crctab ctx' \<Longrightarrow> block_trailer with_crc ctx = block_trailer with_crc ctx'"
  by (simp add: block_trailer_def crc16_doCalcul_def crc16_step_def [abs_def] fun_eq_iff)

lemma crc_ok_trailer:
  "crc_ok c \<Longrightarrow> block_trailer True (crc16 c) =
    block_trailer True (crc16_init (crc16 c) LXMODEM_CRC16_CCITT_POLYNOME)"
  by (rule block_trailer_table) (simp add: crc_ok_def crc16_ready_def)

lemma corrupted_frame:
  assumes "crc_ok c" and "xs @ a # ys = block_frame crc (crc16 c) n d"
    and "xs @ b # ys = block_frame crc (crc16 c) n' d'" and "length d = length d'"
  shows "a = b"
proof (cases crc)
  case True
  with assms show ?thesis
    by (intro ccitt.frame_detects_byte [of xs a ys n d "crc16 c" b n' d'])
      (simp_all add: block_frame_def crc_ok_trailer)
next
  case False
  with assms show ?thesis
    by (intro chksum.frame_detects_byte [of xs a ys n d "crc16 c" b n' d'])
      (simp_all add: block_frame_def)
qed

section \<open>The verdict on a block\<close>

text \<open>What the receiver says of the \<open>k + 3\<close> or \<open>k + 4\<close> bytes \<open>f\<close> behind a SOH or STX.\<close>

definition block_verdict ::
  "bool \<Rightarrow> crc16_context \<Rightarrow> u8 \<Rightarrow> nat \<Rightarrow> u8 list \<Rightarrow> lxmodem_reception_status" where
  "block_verdict with_crc ctx n k f =
     (if take 2 f = [n, NOT n] then
        (if drop (2 + k) f = block_trailer with_crc ctx (take k (drop 2 f)) then LXMODEM_RECV_OK
         else LXMODEM_RECV_ERROR)
      else if take 2 f = [n - 1, NOT (n - 1)] then LXMODEM_RECV_PREVIOUS_BLOCK
      else LXMODEM_RECV_ERROR)"

lemma check_block_verdict:
  assumes "frame_size c k \<le> length (line_buffer (blk_buffer c))"
  shows "lxmodem_check_block_no_and_crc c n k = Some (block_verdict (block_with_crc c k) (crc16 c) n
    (unat k) (take (frame_size c k) (line_buffer (blk_buffer c))))"
proof -
  let ?b = "line_buffer (blk_buffer c)" and ?m = "frame_size c k"
  have m: "2 + unat k \<le> ?m" by (simp add: frame_size_def)
  have parts: "take 2 (take ?m ?b) = take 2 ?b" "take (unat k) (drop 2 (take ?m ?b)) = take (unat k) (drop 2 ?b)"
    "drop (2 + unat k) (take ?m ?b) = take (?m - 2 - unat k) (drop (2 + unat k) ?b)"
    using m by (simp_all add: drop_take min_def)
  show ?thesis
    unfolding block_verdict_def parts check_block_Some [OF assms] check_crc_Some [OF assms] by simp
qed

lemma verdict_frame: "block_verdict with_crc ctx n (length d) (block_frame with_crc ctx n d) = LXMODEM_RECV_OK"
  by (simp add: block_verdict_def block_frame_def)

lemma verdict_previous:
  "block_verdict with_crc ctx n (length d) (block_frame with_crc ctx' (n - 1) d) = LXMODEM_RECV_PREVIOUS_BLOCK"
  by (simp add: block_verdict_def block_frame_def)

text \<open>A frame with one corrupted byte is neither a good block nor taken for the previous one.\<close>

lemma verdict_corrupted:
  assumes "crc_ok c" and "i < length (block_frame crc (crc16 c) n d)"
    and "x \<noteq> block_frame crc (crc16 c) n d ! i"
  shows "block_verdict crc (crc16 c) n (length d) ((block_frame crc (crc16 c) n d)[i := x]) = LXMODEM_RECV_ERROR"
proof -
  let ?f = "block_frame crc (crc16 c) n d"
  let ?g = "?f[i := x]"
  have "\<not> (take 2 ?g = [n, NOT n] \<and> drop (2 + length d) ?g = block_trailer crc (crc16 c) (take (length d) (drop 2 ?g)))"
  proof
    assume ok: "take 2 ?g = [n, NOT n] \<and>
      drop (2 + length d) ?g = block_trailer crc (crc16 c) (take (length d) (drop 2 ?g))"
    have "?g = take 2 ?g @ take (length d) (drop 2 ?g) @ drop (2 + length d) ?g"
      by (rule take_take_drop [symmetric])
    also have "\<dots> = block_frame crc (crc16 c) n (take (length d) (drop 2 ?g))"
      using ok by (simp only: block_frame_def)
    finally have "?g = block_frame crc (crc16 c) n (take (length d) (drop 2 ?g))" .
    then have new: "take i ?f @ x # drop (Suc i) ?f = block_frame crc (crc16 c) n (take (length d) (drop 2 ?g))"
      by (rule trans [OF upd_conv_take_nth_drop [OF assms(2), symmetric]])
    have "?f ! i = x"
      by (rule corrupted_frame [OF assms(1) id_take_nth_drop [OF assms(2), symmetric] new])
        (simp add: length_block_frame)
    with assms(3) show False by simp
  qed
  moreover have "take 2 ?g \<noteq> [n - 1, NOT (n - 1)]"
  proof -
    have "n - 1 \<noteq> n" by simp
    consider "i = 0" | "i = 1" | j where "i = Suc (Suc j)" by (metis One_nat_def not0_implies_Suc)
    then show ?thesis
      using \<open>n - 1 \<noteq> n\<close> by cases (simp_all add: block_frame_def word_NOT_inj)
  qed
  ultimately show ?thesis unfolding block_verdict_def by argo
qed

section \<open>Properties\<close>

text \<open>
  C14: The receiver's check of a block (\<open>lxmodem_check_block_no_and_crc\<close>) says OK exactly when
  the line buffer starts with the frame of its data: the expected number, its complement, the
  data, and their checksum or CRC, high byte first.
\<close>

theorem check_block_accepts_exactly_frames:
  assumes "frame_size c k \<le> length (line_buffer (blk_buffer c))"
  shows "lxmodem_check_block_no_and_crc c n k = Some LXMODEM_RECV_OK \<longleftrightarrow>
    take (frame_size c k) (line_buffer (blk_buffer c)) =
    block_frame (block_with_crc c k) (crc16 c) n (take (unat k) (drop 2 (line_buffer (blk_buffer c))))"
  using assms by (rule check_block_OK_iff)

theorem check_block_accepts_exactly_frames_witness:
  "lxmodem_check_block_no_and_crc
      ((memset_context (unset_context ()))\<lparr>blk_buffer := \<lparr>line_buffer = [1, 254, 7, 8, 15], line_current_size = 0,
        line_max_size = 5\<rparr>\<rparr>) 1 2 = Some LXMODEM_RECV_OK"
  using check_block_accepts_exactly_frames [of "(memset_context (unset_context ()))\<lparr>blk_buffer :=
      \<lparr>line_buffer = [1, 254, 7, 8, 15], line_current_size = 0, line_max_size = 5\<rparr>\<rparr>" 2 1]
  by (simp add: memset_context_def frame_size_def block_with_crc_def block_frame_def block_trailer_def
      lxmodem_calcul_chksum_def)

text \<open>
  C7: One corrupted byte is never accepted: from a block that the receiver accepts, changing
  any one byte (number, complement, data, checksum or CRC) gives a block that it rejects, with
  the checksum as with the CRC, and also against another expected number.
\<close>

theorem corrupted_byte_rejected:
  assumes "crc_ok c" and "frame_size c k \<le> length (line_buffer (blk_buffer c))"
    and "i < frame_size c k" and "x \<noteq> line_buffer (blk_buffer c) ! i"
    and "lxmodem_check_block_no_and_crc c n k = Some LXMODEM_RECV_OK"
  shows "lxmodem_check_block_no_and_crc
      (c\<lparr>blk_buffer := (blk_buffer c)\<lparr>line_buffer := (line_buffer (blk_buffer c))[i := x]\<rparr>\<rparr>) n' k
    \<noteq> Some LXMODEM_RECV_OK"
proof
  let ?buf = "line_buffer (blk_buffer c)" and ?m = "frame_size c k"
  let ?c = "c\<lparr>blk_buffer := (blk_buffer c)\<lparr>line_buffer := ?buf[i := x]\<rparr>\<rparr>"
  assume "lxmodem_check_block_no_and_crc ?c n' k = Some LXMODEM_RECV_OK"
  then have new: "take ?m (?buf[i := x]) =
      block_frame (block_with_crc c k) (crc16 c) n' (take (unat k) (drop 2 (?buf[i := x])))"
    using check_block_OK_iff [of ?c k n'] assms(2) by (simp add: frame_size_def block_with_crc_def)
  have old: "take ?m ?buf = block_frame (block_with_crc c k) (crc16 c) n (take (unat k) (drop 2 ?buf))"
    using check_block_OK_iff [OF assms(2)] assms(5) by simp
  have len: "i < length (take ?m ?buf)" using assms(2,3) by simp
  note split = id_take_nth_drop [OF len]
  have new': "take i (take ?m ?buf) @ x # drop (Suc i) (take ?m ?buf) =
      block_frame (block_with_crc c k) (crc16 c) n' (take (unat k) (drop 2 (?buf[i := x])))"
    using new len by (simp add: take_update_swap upd_conv_take_nth_drop)
  have "take ?m ?buf ! i = x"
    by (rule corrupted_frame [OF assms(1) trans [OF split [symmetric] old] new']) simp
  then show False using assms(3,4) by simp
qed

theorem corrupted_byte_rejected_witness:
  "lxmodem_check_block_no_and_crc
      ((lmodem_init (unset_context ()) Lxmodem_128_with_chksum)\<lparr>blk_buffer :=
        \<lparr>line_buffer = [1, 254, 7, 9, 15], line_current_size = 0, line_max_size = 5\<rparr>\<rparr>) 1 2
    \<noteq> Some LXMODEM_RECV_OK"
proof -
  let ?c = "(lmodem_init (unset_context ()) Lxmodem_128_with_chksum)\<lparr>blk_buffer :=
        \<lparr>line_buffer = [1, 254, 7, 8, 15], line_current_size = 0, line_max_size = 5\<rparr>\<rparr>"
  have crc: "crc_ok ?c" using lmodem_init_crc_ok [of "unset_context ()"] by (simp add: crc_ok_def)
  have size: "frame_size ?c 2 = 5" "block_with_crc ?c 2 = False"
    by (simp_all add: frame_size_def block_with_crc_def lmodem_init_def memset_context_def Let_def)
  have ok: "lxmodem_check_block_no_and_crc ?c 1 2 = Some LXMODEM_RECV_OK"
    using check_block_OK_iff [of ?c 2 1] size
    by (simp add: block_frame_def block_trailer_def lxmodem_calcul_chksum_def)
  from corrupted_byte_rejected [OF crc _ _ _ ok, of 3 9 1] size show ?thesis by simp
qed

end
