(* ===== verification/Serial.thy ===== *)
theory Serial
  imports Context
begin

text \<open>
  \<open>tools/serial.c\<close>: reading and writing the serial port, and the two callbacks of
  \<open>tools/rzsz.c\<close> on top. The system calls are parameters: \<open>rd w n\<close> is \<open>read(fd, p, n)\<close>, with
  \<open>None\<close> for \<open>-1\<close> and else the bytes it stores, of which \<open>read\<close> never stores more than \<open>n\<close>;
  \<open>wr w bytes\<close> is \<open>write(fd, bytes, size)\<close>, with its result. Whatever the port does, the read
  callback is a \<open>serial_line\<close>: it returns, because three empty reads end it, and it succeeds
  only with all the bytes it was asked for.
\<close>

section \<open>The code\<close>

type_synonym 'w read_call = "'w \<Rightarrow> nat \<Rightarrow> u8 list option \<times> 'w"
type_synonym 'w write_call = "'w \<Rightarrow> u8 list \<Rightarrow> nat option \<times> 'w"

text \<open>
  The loop of \<open>serial_read\<close>: \<open>got\<close> is \<open>buffer[0 .. nbRead - 1]\<close>. The counter \<open>attempt\<close> is not
  reset by a read that delivers something, and the third empty read ends the loop.
\<close>

function serial_read_loop ::
  "'w read_call \<Rightarrow> 'w \<Rightarrow> nat \<Rightarrow> u8 list \<Rightarrow> nat \<Rightarrow> (bool \<times> u8 list) \<times> 'w" where
  "serial_read_loop rd w sz got attempt =
     (if length got < sz then
        (case rd w (sz - length got) of
           (None, w) \<Rightarrow> ((False, got), w)
         | (Some data, w) \<Rightarrow>
             if data = [] then
               (if attempt + 1 > 2 then ((False, got), w)
                else serial_read_loop rd w sz got (attempt + 1))
             else serial_read_loop rd w sz (got @ take (sz - length got) data) attempt)
      else ((True, got), w))"
  by pat_completeness auto
termination
  by (relation "measure (\<lambda>(rd, w, sz, got, attempt). (sz - length got) + (2 - attempt))")
    (auto simp: length_greater_0_conv [symmetric] min_def simp del: length_greater_0_conv)

declare serial_read_loop.simps [simp del]

definition serial_read :: "'w read_call \<Rightarrow> 'w \<Rightarrow> u32 \<Rightarrow> (bool \<times> u8 list) \<times> 'w" where
  "serial_read rd w sz = serial_read_loop rd w (unat sz) [] 0"

definition serial_write :: "'w write_call \<Rightarrow> 'w \<Rightarrow> u8 list \<Rightarrow> bool \<times> 'w" where
  "serial_write wr w data =
     (case wr w data of
        (None, w) \<Rightarrow> (False, w)
      | (Some nbWritten, w) \<Rightarrow> (word_of_nat (length data) = (word_of_nat nbWritten :: u32), w))"

definition serial_send_char :: "'w write_call \<Rightarrow> 'w \<Rightarrow> u8 \<Rightarrow> bool \<times> 'w" where
  "serial_send_char wr w c = serial_write wr w [c]"

text \<open>The callbacks: the result of the write is dropped.\<close>

definition serial_getchar :: "'w read_call \<Rightarrow> 'w getchar_fun" where
  "serial_getchar rd w sz = Some (serial_read rd w sz)"

definition serial_putchar :: "'w write_call \<Rightarrow> 'w putchar_fun" where
  "serial_putchar wr w data = snd (serial_write wr w data)"

text \<open>The speeds of \<open>termios.h\<close>, and the one the code picks.\<close>

datatype speed_flag =
  B134 | B150 | B200 | B300 | B600 | B1200 | B1800 | B2400 | B4800 | B9600 | B19200 | B38400
  | B57600 | B115200

definition serial_convertBaudRateToFlag :: "u32 \<Rightarrow> speed_flag" where
  "serial_convertBaudRateToFlag baudrate =
     (if baudrate = 134 then B134 else if baudrate = 150 then B150
      else if baudrate = 200 then B200 else if baudrate = 300 then B300
      else if baudrate = 600 then B600 else if baudrate = 1200 then B1200
      else if baudrate = 1800 then B1800 else if baudrate = 2400 then B2400
      else if baudrate = 4800 then B4800 else if baudrate = 9600 then B9600
      else if baudrate = 19200 then B19200 else if baudrate = 38400 then B38400
      else if baudrate = 57600 then B57600 else if baudrate = 115200 then B115200
      else B9600)"

section \<open>The read callback is a serial line\<close>

lemma read_loop_bounds:
  "serial_read_loop rd w sz got attempt = ((ok, data), w') \<Longrightarrow> length got \<le> sz \<Longrightarrow>
    length data \<le> sz \<and> (ok \<longrightarrow> length data = sz)"
proof (induction rd w sz got attempt rule: serial_read_loop.induct)
  case (1 rd w sz got attempt)
  show ?case
  proof (cases "length got < sz")
    case True
    obtain r w1 where rd: "rd w (sz - length got) = (r, w1)" by (cases "rd w (sz - length got)")
    show ?thesis
    proof (cases r)
      case None
      with True rd "1.prems" show ?thesis by (simp add: serial_read_loop.simps [of rd w])
    next
      case (Some bs)
      show ?thesis
      proof (cases "bs = []")
        case True
        with \<open>length got < sz\<close> rd Some "1.prems" "1.IH"(1) [OF \<open>length got < sz\<close> rd [symmetric] Some]
        show ?thesis by (auto simp: serial_read_loop.simps [of rd w] split: if_splits)
      next
        case False
        with \<open>length got < sz\<close> rd Some "1.prems"
          "1.IH"(2) [OF \<open>length got < sz\<close> rd [symmetric] Some]
        show ?thesis by (auto simp: serial_read_loop.simps [of rd w])
      qed
    qed
  next
    case False
    with "1.prems" show ?thesis by (simp add: serial_read_loop.simps [of rd w])
  qed
qed

interpretation tty: serial_line "serial_getchar rd" for rd
proof
  fix w n
  obtain ok data w' where res: "serial_read rd w n = ((ok, data), w')"
    by (cases "serial_read rd w n") auto
  with read_loop_bounds [of rd w "unat n" "[]" 0 ok data w']
  show "\<exists>ok data w'. serial_getchar rd w n = Some ((ok, data), w') \<and>
      length data \<le> unat n \<and> (ok \<longrightarrow> length data = unat n)"
    by (simp add: serial_getchar_def serial_read_def)
qed

end
