(* ===== verification/Rx.thy ===== *)
theory Rx
  imports Block Serial
begin

text \<open>
  \<open>src/lmodem_rx.c\<close>, the XMODEM part: the replies and the reception loop \<open>lxmodem_receive\<close>,
  which is shown to refine an abstract receiver (\<open>rx_spec_step\<close>) and to end whatever the line
  does. The loop is the recursive \<open>lxmodem_receive_loop\<close> over one round of
  its body, \<open>lxmodem_receive_step\<close>; its local variables are the record \<open>rx_locals\<close>. Counters
  that a guard keeps small (\<open>nbRetry\<close>, \<open>canCharReceived\<close>, at most 10 and 2) are naturals.
\<close>

section \<open>Replies\<close>

definition lxmodem_preambule_char :: "'w modem_context \<Rightarrow> u8" where
  "lxmodem_preambule_char c =
     (case protocol c of
        XMODEM \<Rightarrow>
          (case opts c of
             Lxmodem_128_with_chksum \<Rightarrow> NAK
           | Lxmodem_128_with_crc \<Rightarrow> char_C
           | Lxmodem_1k \<Rightarrow> char_C)
      | YMODEM \<Rightarrow> char_C)"

definition lxmodem_build_and_send_preambule ::
  "'w modem_context \<Rightarrow> 'w modem_context option" where
  "lxmodem_build_and_send_preambule c = lmodem_putchar c [lxmodem_preambule_char c]"

definition lxmodem_build_and_send_reply ::
  "'w modem_context \<Rightarrow> lxmodem_reception_status \<Rightarrow> 'w modem_context option" where
  "lxmodem_build_and_send_reply c rcvStatus =
     lmodem_putchar c
       [if rcvStatus = LXMODEM_RECV_OK \<or> rcvStatus = LXMODEM_RECV_PREVIOUS_BLOCK then ACK else NAK]"

definition lxmodem_build_and_send_cancel :: "'w modem_context \<Rightarrow> 'w modem_context option" where
  "lxmodem_build_and_send_cancel c = lmodem_putchar c [CAN, CAN]"

section \<open>The reception loop\<close>

record rx_locals =
  receivedBytes :: u32
  bFinished :: bool
  expectedBlkNumber :: u8
  blksize :: u32
  canCharReceived :: nat
  nbRetry :: nat

definition rx_start :: rx_locals where
  "rx_start = \<lparr>receivedBytes = 0, bFinished = False, expectedBlkNumber = 1, blksize = 0,
     canCharReceived = 0, nbRetry = 0\<rparr>"

text \<open>The \<open>switch (header)\<close>: the status of the round, the locals, the context.\<close>

definition lxmodem_receive_header ::
  "u8 \<Rightarrow> rx_locals \<Rightarrow> 'w modem_context \<Rightarrow>
    (lxmodem_reception_status \<times> rx_locals \<times> 'w modem_context) option" where
  "lxmodem_receive_header header l c =
     (if header = SOH then do {
        let l = l\<lparr>canCharReceived := 0, blksize := LXMODEM_BLOCK_SIZE_128\<rparr>;
        (rcvStatus, c) \<leftarrow> lxmodem_receive_block c (expectedBlkNumber l) (blksize l);
        Some (rcvStatus, l, c)
      } else if header = STX then do {
        let l = l\<lparr>canCharReceived := 0\<rparr>;
        if opts c = Lxmodem_1k \<or> protocol c = YMODEM then do {
          let l = l\<lparr>blksize := LXMODEM_BLOCK_SIZE_1024\<rparr>;
          (rcvStatus, c) \<leftarrow> lxmodem_receive_block c (expectedBlkNumber l) (blksize l);
          Some (rcvStatus, l, c)
        } else Some (LXMODEM_RECV_ERROR, l, c)
      } else if header = EOT then
        Some (LXMODEM_RECV_OK, l\<lparr>canCharReceived := 0, blksize := 0, bFinished := True\<rparr>, c)
      else if header = CAN then do {
        let l = l\<lparr>canCharReceived := canCharReceived l + 1\<rparr>;
        Some (LXMODEM_RECV_ERROR,
          (if canCharReceived l \<ge> 2 then l\<lparr>bFinished := True, receivedBytes := -1\<rparr> else l), c)
      } else Some (LXMODEM_RECV_ERROR, l, c))"

text \<open>The branch of a failed round: one retry less, and two CAN after the tenth.\<close>

definition lxmodem_receive_retry ::
  "rx_locals \<Rightarrow> 'w modem_context \<Rightarrow> (rx_locals \<times> 'w modem_context) option" where
  "lxmodem_receive_retry l c = do {
     let l = l\<lparr>nbRetry := nbRetry l + 1\<rparr>;
     if nbRetry l \<ge> 10 then do {
       c \<leftarrow> lxmodem_build_and_send_cancel c;
       Some (l\<lparr>receivedBytes := -1, bFinished := True\<rparr>, c)
     } else Some (l, c)
   }"

text \<open>The branch of a good block: into the RAM file, or two CAN if it does not fit.\<close>

definition lxmodem_receive_store ::
  "rx_locals \<Rightarrow> 'w modem_context \<Rightarrow> (rx_locals \<times> 'w modem_context) option" where
  "lxmodem_receive_store l c = do {
     (nbPutInRamFile, file) \<leftarrow>
       lmodem_buffer_write (ramfile c) (drop 2 (line_buffer (blk_buffer c))) (blksize l);
     let c = c\<lparr>ramfile := file\<rparr>;
     if nbPutInRamFile \<noteq> blksize l then do {
       c \<leftarrow> lmodem_putchar c [CAN, CAN];
       Some (l\<lparr>bFinished := True, receivedBytes := -1\<rparr>, c)
     } else
       Some (l\<lparr>expectedBlkNumber := expectedBlkNumber l + 1,
               receivedBytes := receivedBytes l + blksize l, nbRetry := 0\<rparr>, c)
   }"

definition lxmodem_receive_step ::
  "rx_locals \<Rightarrow> 'w modem_context \<Rightarrow> (rx_locals \<times> 'w modem_context) option" where
  "lxmodem_receive_step l c = do {
     (bReceived, c) \<leftarrow> lmodem_getchar_byte c;
     (case bReceived of
        Some header \<Rightarrow> do {
          (rcvStatus, l, c) \<leftarrow> lxmodem_receive_header header l c;
          c \<leftarrow> lxmodem_build_and_send_reply c rcvStatus;
          if rcvStatus = LXMODEM_RECV_OK then lxmodem_receive_store l c
          else lxmodem_receive_retry l c
        }
      | None \<Rightarrow> lxmodem_receive_retry l c)
   }"

partial_function (option) lxmodem_receive_loop ::
  "rx_locals \<Rightarrow> 'w modem_context \<Rightarrow> (rx_locals \<times> 'w modem_context) option" where
  "lxmodem_receive_loop l c =
     (if bFinished l then Some (l, c)
      else do {
        (l, c) \<leftarrow> lxmodem_receive_step l c;
        lxmodem_receive_loop l c
      })"

definition lxmodem_receive :: "'w modem_context \<Rightarrow> (u32 \<times> 'w modem_context) option" where
  "lxmodem_receive c = do {
     c \<leftarrow> lxmodem_build_and_send_preambule c;
     (l, c) \<leftarrow> lxmodem_receive_loop rx_start c;
     Some (receivedBytes l, c)
   }"

section \<open>The abstract receiver\<close>

text \<open>
  What the loop promises: the blocks accepted so far, the consecutive failures, and whether
  the transfer goes on. An accepted block clears the failures; the tenth failure in a row,
  a second CAN, or a full file ends the transfer.
\<close>

datatype rx_phase = Receiving | Completed | Aborted

record rx_spec =
  accepted :: "u8 list list"
  failures :: nat
  phase :: rx_phase

definition rx_spec_start :: rx_spec where
  "rx_spec_start = \<lparr>accepted = [], failures = 0, phase = Receiving\<rparr>"

inductive rx_spec_step :: "rx_spec \<Rightarrow> rx_spec \<Rightarrow> bool" where
  accept: "phase a = Receiving \<Longrightarrow> length b = 128 \<or> length b = 1024 \<Longrightarrow>
    rx_spec_step a (a\<lparr>accepted := accepted a @ [b], failures := 0\<rparr>)"
| fail: "phase a = Receiving \<Longrightarrow> failures a < 9 \<Longrightarrow>
    rx_spec_step a (a\<lparr>failures := failures a + 1\<rparr>)"
| complete: "phase a = Receiving \<Longrightarrow> rx_spec_step a (a\<lparr>failures := 0, phase := Completed\<rparr>)"
| abort: "phase a = Receiving \<Longrightarrow> f \<le> failures a + 1 \<Longrightarrow>
    rx_spec_step a (a\<lparr>failures := f, phase := Aborted\<rparr>)"

inductive rx_spec_reachable :: "rx_spec \<Rightarrow> bool" where
  start: "rx_spec_reachable rx_spec_start"
| step: "rx_spec_reachable a \<Longrightarrow> rx_spec_step a a' \<Longrightarrow> rx_spec_reachable a'"

inductive_cases rx_spec_stepE: "rx_spec_step a a'"

lemma rx_spec_invariant:
  "rx_spec_reachable a \<Longrightarrow>
    failures a \<le> 10 \<and> (phase a = Receiving \<longrightarrow> failures a < 10) \<and>
    (\<forall>b \<in> set (accepted a). length b = 128 \<or> length b = 1024)"
proof (induction rule: rx_spec_reachable.induct)
  case start
  show ?case by (simp add: rx_spec_start_def)
next
  case (step a a')
  from step.hyps(2) step.IH show ?case by (auto elim!: rx_spec_stepE)
qed

text \<open>
  The abstraction: the file holds \<open>base\<close> and then the accepted blocks, and the locals are
  functions of the abstract state.
\<close>

definition rx_refines :: "u8 list \<Rightarrow> rx_spec \<Rightarrow> rx_locals \<Rightarrow> 'w modem_context \<Rightarrow> bool" where
  "rx_refines base a l c \<longleftrightarrow>
     ram_contents (ramfile c) = base @ concat (accepted a) \<and> nbRetry l = failures a \<and>
     (bFinished l \<longleftrightarrow> phase a \<noteq> Receiving) \<and>
     (phase a \<noteq> Aborted \<longrightarrow> receivedBytes l = word_of_nat (length (concat (accepted a)))) \<and>
     (phase a = Aborted \<longrightarrow> receivedBytes l = -1) \<and>
     (phase a = Receiving \<longrightarrow>
        expectedBlkNumber l = word_of_nat (length (accepted a)) + 1 \<and> canCharReceived l < 2)"

section \<open>Every round returns\<close>

text \<open>The line buffer the receiver needs: the longest frame it may ask for.\<close>

definition rx_line_need :: "'w modem_context \<Rightarrow> nat" where
  "rx_line_need c =
     (if opts c = Lxmodem_1k \<or> protocol c = YMODEM then 1028
      else if withCrc c then 132 else 131)"

definition rx_ready :: "'w modem_context \<Rightarrow> bool" where
  "rx_ready c \<longleftrightarrow>
     ram_wf (ramfile c) \<and> rx_line_need c \<le> length (line_buffer (blk_buffer c)) \<and> putchar_cb c \<noteq> None"

lemma rx_ready_same_setup:
  "rx_ready c \<Longrightarrow> same_setup c c' \<Longrightarrow> ram_wf (ramfile c') \<Longrightarrow> rx_ready c'"
  by (auto simp: rx_ready_def rx_line_need_def same_setup_def)

lemma frame_size_128: "rx_ready c \<Longrightarrow> frame_size c 128 \<le> length (line_buffer (blk_buffer c))"
  by (auto simp: rx_ready_def rx_line_need_def frame_size_def block_with_crc_def split: if_splits)

lemma frame_size_1024:
  "rx_ready c \<Longrightarrow> opts c = Lxmodem_1k \<or> protocol c = YMODEM \<Longrightarrow>
    frame_size c 1024 \<le> length (line_buffer (blk_buffer c))"
  by (auto simp: rx_ready_def rx_line_need_def frame_size_def block_with_crc_def split: if_splits)

lemma check_block_returns:
  "frame_size c k \<le> length (line_buffer (blk_buffer c)) \<Longrightarrow>
    \<exists>st. lxmodem_check_block_no_and_crc c n k = Some st"
  by (simp add: check_block_Some check_crc_Some)

text \<open>The replies, through a given \<open>putchar\<close> callback.\<close>

named_theorems reply_simps

lemma reply_returns [reply_simps]:
  "putchar_cb c = Some p \<Longrightarrow> lxmodem_build_and_send_reply c st =
    Some (c\<lparr>world := p (world c)
      [if st = LXMODEM_RECV_OK \<or> st = LXMODEM_RECV_PREVIOUS_BLOCK then ACK else NAK]\<rparr>)"
  by (simp add: lxmodem_build_and_send_reply_def putchar_returns)

lemma cancel_returns [reply_simps]:
  "putchar_cb c = Some p \<Longrightarrow>
    lxmodem_build_and_send_cancel c = Some (c\<lparr>world := p (world c) [CAN, CAN]\<rparr>)"
  by (simp add: lxmodem_build_and_send_cancel_def putchar_returns)

lemma preambule_returns [reply_simps]:
  "putchar_cb c = Some p \<Longrightarrow> lxmodem_build_and_send_preambule c =
    Some (c\<lparr>world := p (world c) [lxmodem_preambule_char c]\<rparr>)"
  by (simp add: lxmodem_build_and_send_preambule_def putchar_returns)

lemma retry_returns:
  assumes "putchar_cb c = Some p"
  shows "\<exists>w. lxmodem_receive_retry l c = Some
    (if nbRetry l + 1 \<ge> 10
     then l\<lparr>nbRetry := nbRetry l + 1, receivedBytes := -1, bFinished := True\<rparr>
     else l\<lparr>nbRetry := nbRetry l + 1\<rparr>, c\<lparr>world := w\<rparr>)"
proof (cases "nbRetry l + 1 \<ge> 10")
  case True
  then show ?thesis
    using assms by (intro exI [of _ "p (world c) [CAN, CAN]"])
      (simp add: lxmodem_receive_retry_def reply_simps)
next
  case False
  then show ?thesis
    by (intro exI [of _ "world c"]) (simp add: lxmodem_receive_retry_def)
qed

context serial_line
begin

lemma receive_block_returns:
  assumes "getchar_cb c = Some getc" and "frame_size c k \<le> length (line_buffer (blk_buffer c))"
    and "unat k \<le> 1024"
  shows "\<exists>st c'. lxmodem_receive_block c n k = Some (st, c') \<and> same_setup c c' \<and>
    ramfile c' = ramfile c \<and>
    (st = LXMODEM_RECV_OK \<longrightarrow>
       take (frame_size c k) (line_buffer (blk_buffer c')) =
       block_frame (block_with_crc c k) (crc16 c) n
         (take (unat k) (drop 2 (line_buffer (blk_buffer c')))))"
proof -
  define m where "m = k + LXMODEM_HEADER_SIZE +
    (if block_with_crc c k then LXMODEM_CRC16_SIZE else LXMODEM_CHKSUM_SIZE)"
  have m: "unat m = frame_size c k"
    using assms(3) by (auto simp: m_def frame_size_def unat_word_ariths)
  obtain ok w' buf where got: "lmodem_getchar_block c m =
      Some (ok, c\<lparr>world := w', blk_buffer := (blk_buffer c)\<lparr>line_buffer := buf\<rparr>\<rparr>)"
    and len: "length buf = length (line_buffer (blk_buffer c))"
    using getchar_block_returns [OF assms(1), of m] assms(2) m by auto
  let ?c = "c\<lparr>world := w', blk_buffer := (blk_buffer c)\<lparr>line_buffer := buf\<rparr>\<rparr>"
  have same: "same_setup c ?c" "block_with_crc ?c k = block_with_crc c k" "frame_size ?c k = frame_size c k"
    using len by (simp_all add: same_setup_def block_with_crc_def frame_size_def)
  then have fits: "frame_size ?c k \<le> length (line_buffer (blk_buffer ?c))"
    using assms(2) len by simp
  obtain st where st: "lxmodem_check_block_no_and_crc ?c n k = Some st"
    using check_block_returns [OF fits] by blast
  have res: "lxmodem_receive_block c n k = Some (if ok then st else LXMODEM_RECV_ERROR, ?c)"
    using got st unfolding lxmodem_receive_block_def m_def [symmetric] by simp
  have "take (frame_size c k) buf =
      block_frame (block_with_crc c k) (crc16 c) n (take (unat k) (drop 2 buf))"
    if "st = LXMODEM_RECV_OK"
    using check_block_OK_iff [OF fits, of n] st that same by simp
  then show ?thesis using res same(1)
    by (intro exI [of _ "if ok then st else LXMODEM_RECV_ERROR"] exI [of _ ?c]) auto
qed

end

text \<open>The four ways a header leaves the locals.\<close>

definition header_outcome ::
  "lxmodem_reception_status \<Rightarrow> rx_locals \<Rightarrow> rx_locals \<Rightarrow> 'w modem_context \<Rightarrow> bool" where
  "header_outcome st l l' c' \<longleftrightarrow>
     nbRetry l' = nbRetry l \<and> expectedBlkNumber l' = expectedBlkNumber l \<and>
     (if st = LXMODEM_RECV_OK
      then receivedBytes l' = receivedBytes l \<and> canCharReceived l' = 0 \<and>
        (if bFinished l' then blksize l' = 0
         else (blksize l' = 128 \<or> blksize l' = 1024) \<and>
           frame_size c' (blksize l') \<le> length (line_buffer (blk_buffer c')) \<and>
           take (frame_size c' (blksize l')) (line_buffer (blk_buffer c')) =
             block_frame (block_with_crc c' (blksize l')) (crc16 c') (expectedBlkNumber l)
               (take (unat (blksize l')) (drop 2 (line_buffer (blk_buffer c')))))
      else if bFinished l' then receivedBytes l' = -1
      else receivedBytes l' = receivedBytes l \<and> (canCharReceived l < 2 \<longrightarrow> canCharReceived l' < 2))"

lemma same_setup_frame:
  assumes "same_setup c c'"
  shows "frame_size c' k = frame_size c k" "block_with_crc c' k = block_with_crc c k"
    "crc16 c' = crc16 c" "length (line_buffer (blk_buffer c')) = length (line_buffer (blk_buffer c))"
    "getchar_cb c' = getchar_cb c" "putchar_cb c' = putchar_cb c"
  using assms by (simp_all add: same_setup_def frame_size_def block_with_crc_def)

context serial_line
begin

lemma header_block_returns:
  assumes "getchar_cb c = Some getc" and fits: "frame_size c k \<le> length (line_buffer (blk_buffer c))"
    and k: "k = 128 \<or> k = 1024" and "\<not> bFinished l"
  shows "\<exists>st c'. lxmodem_receive_block c (expectedBlkNumber l) k = Some (st, c') \<and>
    same_setup c c' \<and> ramfile c' = ramfile c \<and>
    header_outcome st l (l\<lparr>canCharReceived := 0, blksize := k\<rparr>) c'"
proof -
  obtain st c' where "lxmodem_receive_block c (expectedBlkNumber l) k = Some (st, c')"
    "same_setup c c'" "ramfile c' = ramfile c"
    "st = LXMODEM_RECV_OK \<longrightarrow>
       take (frame_size c k) (line_buffer (blk_buffer c')) =
       block_frame (block_with_crc c k) (crc16 c) (expectedBlkNumber l)
         (take (unat k) (drop 2 (line_buffer (blk_buffer c'))))"
    using receive_block_returns [OF assms(1) fits, of "expectedBlkNumber l"] k by auto
  with k fits assms(4) show ?thesis
    by (intro exI [of _ st] exI [of _ c']) (auto simp: header_outcome_def same_setup_frame)
qed

lemma header_returns:
  assumes get: "getchar_cb c = Some getc" and ready: "rx_ready c" and run: "\<not> bFinished l"
  shows "\<exists>st l' c'. lxmodem_receive_header h l c = Some (st, l', c') \<and> same_setup c c' \<and>
    ramfile c' = ramfile c \<and> header_outcome st l l' c'"
proof -
  consider (soh) "h = SOH" | (stx) "h = STX" "opts c = Lxmodem_1k \<or> protocol c = YMODEM"
    | (other) "h \<noteq> SOH" "\<not> (h = STX \<and> (opts c = Lxmodem_1k \<or> protocol c = YMODEM))"
    by blast
  then show ?thesis
  proof cases
    case soh
    with header_block_returns [OF get frame_size_128 [OF ready] _ run] show ?thesis
      by (auto simp: lxmodem_receive_header_def)
  next
    case stx
    with header_block_returns [OF get frame_size_1024 [OF ready stx(2)] _ run] show ?thesis
      by (auto simp: lxmodem_receive_header_def)
  next
    case other
    have "\<exists>st l'. lxmodem_receive_header h l c = Some (st, l', c) \<and> header_outcome st l l' c"
      using other run by (simp add: lxmodem_receive_header_def header_outcome_def Let_def)
    then show ?thesis using same_setup_refl by blast
  qed
qed

end

text \<open>Storing a good block: appended if a byte stays free, else the transfer is cancelled.\<close>

abbreviation stored_locals :: "rx_locals \<Rightarrow> rx_locals" where
  "stored_locals l \<equiv> l\<lparr>expectedBlkNumber := expectedBlkNumber l + 1,
     receivedBytes := receivedBytes l + blksize l, nbRetry := 0\<rparr>"

lemma buffer_write_cases:
  assumes "ram_wf b" and "unat n \<le> length src" and "unat n < 2 ^ 31"
  shows "\<exists>b'. lmodem_buffer_write b src n = Some (if unat n < ram_room b then n else 0, b') \<and> ram_wf b' \<and>
    ram_contents b' = ram_contents b @ (if unat n < ram_room b then take (unat n) src else []) \<and>
    ram_room b' = ram_room b - (if unat n < ram_room b then unat n else 0)"
proof (cases "unat n < ram_room b")
  case True
  then show ?thesis using buffer_write_room [OF assms(1,2) True] by auto
next
  case False
  then show ?thesis using buffer_write_full [OF assms(1,3), of src] assms(1) by auto
qed

lemma store_returns:
  assumes "ram_wf (ramfile c)" and "putchar_cb c = Some p"
    and "unat (blksize l) + 2 \<le> length (line_buffer (blk_buffer c))" and "unat (blksize l) \<le> 1024"
  shows "\<exists>w file. ram_wf file \<and>
    (if unat (blksize l) < ram_room (ramfile c) \<or> blksize l = 0
     then lxmodem_receive_store l c = Some (stored_locals l, c\<lparr>ramfile := file, world := w\<rparr>) \<and>
       ram_contents file = ram_contents (ramfile c) @
         take (unat (blksize l)) (drop 2 (line_buffer (blk_buffer c))) \<and>
       ram_room file = ram_room (ramfile c) - unat (blksize l)
     else lxmodem_receive_store l c =
         Some (l\<lparr>bFinished := True, receivedBytes := -1\<rparr>, c\<lparr>ramfile := file, world := w\<rparr>) \<and>
       ram_contents file = ram_contents (ramfile c))"
proof -
  let ?src = "drop 2 (line_buffer (blk_buffer c))"
  have small: "unat (blksize l) \<le> length ?src" "unat (blksize l) < 2 ^ 31"
    using assms(3,4) by auto
  obtain rf where wr: "lmodem_buffer_write (ramfile c) ?src (blksize l) =
      Some (if unat (blksize l) < ram_room (ramfile c) then blksize l else 0, rf)"
    and stored: "ram_wf rf" "ram_contents rf = ram_contents (ramfile c) @
        (if unat (blksize l) < ram_room (ramfile c) then take (unat (blksize l)) ?src else [])"
      "ram_room rf = ram_room (ramfile c) -
        (if unat (blksize l) < ram_room (ramfile c) then unat (blksize l) else 0)"
    using buffer_write_cases [OF assms(1) small] by blast
  show ?thesis
  proof (cases "unat (blksize l) < ram_room (ramfile c) \<or> blksize l = 0")
    case True
    then show ?thesis using wr stored
      by (intro exI [of _ "world c"] exI [of _ rf]) (auto simp: lxmodem_receive_store_def)
  next
    case False
    then show ?thesis using wr stored assms(2)
      by (intro exI [of _ "p (world c) [CAN, CAN]"] exI [of _ rf])
        (auto simp: lxmodem_receive_store_def putchar_returns)
  qed
qed

lemma rx_refines_world [simp]: "rx_refines base a l (c\<lparr>world := w\<rparr>) = rx_refines base a l c"
  by (simp add: rx_refines_def)

lemma rx_ready_world [simp]: "rx_ready (c\<lparr>world := w\<rparr>) = rx_ready c"
  by (simp add: rx_ready_def rx_line_need_def)

text \<open>A round ends the transfer, uses up room, or uses up a retry.\<close>

definition rx_progress :: "rx_locals \<Rightarrow> 'w modem_context \<Rightarrow> rx_locals \<Rightarrow> 'w modem_context \<Rightarrow> bool" where
  "rx_progress l c l' c' \<longleftrightarrow>
     bFinished l' \<or> ram_room (ramfile c') < ram_room (ramfile c) \<or>
     ramfile c' = ramfile c \<and> nbRetry l' = nbRetry l + 1 \<and> nbRetry l' < 10"

lemma retry_refines:
  assumes "rx_refines base a l0 c" and "phase a = Receiving" and "rx_ready c"
    and "nbRetry l = nbRetry l0" and "expectedBlkNumber l = expectedBlkNumber l0"
    and "if bFinished l then receivedBytes l = -1
         else receivedBytes l = receivedBytes l0 \<and> canCharReceived l < 2"
  shows "\<exists>l' w a'. lxmodem_receive_retry l c = Some (l', c\<lparr>world := w\<rparr>) \<and>
    rx_spec_step a a' \<and> rx_refines base a' l' c \<and> rx_progress l0 c l' (c\<lparr>world := w\<rparr>)"
proof -
  define l' where "l' =
    (if nbRetry l + 1 \<ge> 10
     then l\<lparr>nbRetry := nbRetry l + 1, receivedBytes := -1, bFinished := True\<rparr>
     else l\<lparr>nbRetry := nbRetry l + 1\<rparr>)"
  obtain p where "putchar_cb c = Some p" using assms(3) by (auto simp: rx_ready_def)
  then obtain w where run: "lxmodem_receive_retry l c = Some (l', c\<lparr>world := w\<rparr>)"
    using retry_returns [of c p l] unfolding l'_def by auto
  show ?thesis
  proof (cases "bFinished l'")
    case True
    let ?a = "a\<lparr>failures := failures a + 1, phase := Aborted\<rparr>"
    have "rx_refines base ?a l' c"
      using True assms by (auto simp: rx_refines_def l'_def split: if_splits)
    moreover have "rx_spec_step a ?a"
      using rx_spec_step.abort [OF assms(2), of "failures a + 1"] by simp
    ultimately show ?thesis using run True by (auto simp: rx_progress_def)
  next
    case False
    let ?a = "a\<lparr>failures := failures a + 1\<rparr>"
    have less: "nbRetry l + 1 < 10" "\<not> bFinished l"
      using False by (auto simp: l'_def split: if_splits)
    then have "rx_refines base ?a l' c"
      using False assms by (auto simp: rx_refines_def l'_def)
    moreover have "rx_spec_step a ?a"
      using less assms by (intro rx_spec_step.fail) (auto simp: rx_refines_def)
    ultimately show ?thesis using run less assms(4)
      by (auto simp: rx_progress_def l'_def)
  qed
qed

lemma store_refines:
  assumes ref: "rx_refines base a l0 c" and phase: "phase a = Receiving" and ready: "rx_ready c"
    and out: "header_outcome LXMODEM_RECV_OK l0 l c"
  shows "\<exists>l' c' a'. lxmodem_receive_store l c = Some (l', c') \<and> same_setup c c' \<and> rx_ready c' \<and>
    rx_spec_step a a' \<and> rx_refines base a' l' c' \<and> rx_progress l0 c l' c'"
proof -
  let ?src = "drop 2 (line_buffer (blk_buffer c))" and ?n = "unat (blksize l)"
  obtain p where p: "putchar_cb c = Some p" using ready by (auto simp: rx_ready_def)
  have wf: "ram_wf (ramfile c)" and need: "131 \<le> length (line_buffer (blk_buffer c))"
    using ready by (auto simp: rx_ready_def rx_line_need_def split: if_splits)
  have n: "?n + 2 \<le> length (line_buffer (blk_buffer c))" "?n \<le> 1024"
    and zero: "bFinished l \<longleftrightarrow> blksize l = 0" "\<not> bFinished l \<Longrightarrow> blksize l = 128 \<or> blksize l = 1024"
    and same: "receivedBytes l = receivedBytes l0" "canCharReceived l = 0"
      "expectedBlkNumber l = expectedBlkNumber l0" "nbRetry l = nbRetry l0"
    using out need by (auto simp: header_outcome_def frame_size_def split: if_splits)
  obtain w rf where wf': "ram_wf rf" and
    st: "if ?n < ram_room (ramfile c) \<or> blksize l = 0
     then lxmodem_receive_store l c = Some (stored_locals l, c\<lparr>ramfile := rf, world := w\<rparr>) \<and>
       ram_contents rf = ram_contents (ramfile c) @ take ?n ?src \<and>
       ram_room rf = ram_room (ramfile c) - ?n
     else lxmodem_receive_store l c =
         Some (l\<lparr>bFinished := True, receivedBytes := -1\<rparr>, c\<lparr>ramfile := rf, world := w\<rparr>) \<and>
       ram_contents rf = ram_contents (ramfile c)"
    using store_returns [OF wf p n] by blast
  let ?c = "c\<lparr>ramfile := rf, world := w\<rparr>"
  have kept: "same_setup c ?c" by (simp add: same_setup_def)
  moreover have "rx_ready ?c"
    using rx_ready_same_setup [OF ready kept] wf' by simp
  ultimately have kept: "same_setup c ?c" "rx_ready ?c" by simp_all
  consider (eot) "blksize l = 0" | (fits) "blksize l \<noteq> 0" "?n < ram_room (ramfile c)"
    | (full) "blksize l \<noteq> 0" "\<not> ?n < ram_room (ramfile c)" by blast
  then show ?thesis
  proof cases
    case eot
    let ?a = "a\<lparr>failures := 0, phase := Completed\<rparr>"
    have "rx_spec_step a ?a" using phase by (rule rx_spec_step.complete)
    moreover have "rx_refines base ?a (stored_locals l) ?c"
      using ref phase st eot zero same by (auto simp: rx_refines_def)
    ultimately show ?thesis using st eot zero kept by (auto simp: rx_progress_def)
  next
    case fits
    let ?b = "take ?n ?src" and ?a = "a\<lparr>accepted := accepted a @ [take ?n ?src], failures := 0\<rparr>"
    have len: "length ?b = ?n" using n by simp
    have "rx_spec_step a ?a"
      using phase zero fits len by (intro rx_spec_step.accept) auto
    moreover have "rx_refines base ?a (stored_locals l) ?c"
      using ref phase st fits zero same n by (auto simp: rx_refines_def len)
    ultimately show ?thesis using st fits zero kept by (auto simp: rx_progress_def)
  next
    case full
    let ?a = "a\<lparr>failures := failures a, phase := Aborted\<rparr>"
    have "rx_spec_step a ?a" using phase by (rule rx_spec_step.abort) simp
    moreover have "rx_refines base ?a (l\<lparr>bFinished := True, receivedBytes := -1\<rparr>) ?c"
      using ref phase st full same by (auto simp: rx_refines_def)
    ultimately show ?thesis using st full kept by (auto simp: rx_progress_def)
  qed
qed

context serial_line
begin

text \<open>One round of the code is one step of the abstract receiver.\<close>

lemma step_refines:
  assumes get: "getchar_cb c = Some getc" and ready: "rx_ready c"
    and ref: "rx_refines base a l c" and phase: "phase a = Receiving"
  shows "\<exists>l' c' a'. lxmodem_receive_step l c = Some (l', c') \<and> same_setup c c' \<and> rx_ready c' \<and>
    rx_spec_step a a' \<and> rx_refines base a' l' c' \<and> rx_progress l c l' c'"
proof -
  obtain p where p: "putchar_cb c = Some p" using ready by (auto simp: rx_ready_def)
  have run: "\<not> bFinished l" "canCharReceived l < 2"
    using ref phase by (auto simp: rx_refines_def)
  obtain got w where got: "lmodem_getchar_byte c = Some (got, c\<lparr>world := w\<rparr>)"
    using getchar_byte_returns [OF get] by blast
  let ?c = "c\<lparr>world := w\<rparr>"
  have c: "getchar_cb ?c = Some getc" "rx_ready ?c" "rx_refines base a l ?c"
    using get ready ref by simp_all
  show ?thesis
  proof (cases got)
    case None
    obtain l' w' a' where "lxmodem_receive_retry l ?c = Some (l', ?c\<lparr>world := w'\<rparr>)"
      "rx_spec_step a a'" "rx_refines base a' l' c" "rx_progress l ?c l' (?c\<lparr>world := w'\<rparr>)"
      using retry_refines [OF c(3) phase c(2), of l] run by auto
    with None got ready show ?thesis
      by (intro exI [of _ l'] exI [of _ "c\<lparr>world := w'\<rparr>"] exI [of _ a'])
        (simp add: lxmodem_receive_step_def same_setup_def rx_progress_def)
  next
    case (Some h)
    obtain st l1 c1 where hd: "lxmodem_receive_header h l ?c = Some (st, l1, c1)"
      and c1: "same_setup ?c c1" "ramfile c1 = ramfile ?c" and out: "header_outcome st l l1 c1"
      using header_returns [OF c(1,2) run(1)] by blast
    have same: "same_setup c c1" "ramfile c1 = ramfile c" "putchar_cb c1 = Some p"
      using c1 p by (simp_all add: same_setup_def)
    obtain w2 where rep: "lxmodem_build_and_send_reply c1 st = Some (c1\<lparr>world := w2\<rparr>)"
      using reply_returns [OF same(3), of st] by blast
    let ?c2 = "c1\<lparr>world := w2\<rparr>"
    have "rx_ready c1"
      using rx_ready_same_setup [OF ready same(1)] ready same(2) by (simp add: rx_ready_def)
    with ref same(2) have c2: "rx_refines base a l ?c2" "rx_ready ?c2"
      by (simp_all add: rx_refines_def)
    have step: "lxmodem_receive_step l c =
        (if st = LXMODEM_RECV_OK then lxmodem_receive_store l1 ?c2 else lxmodem_receive_retry l1 ?c2)"
      using got Some hd rep by (simp add: lxmodem_receive_step_def)
    show ?thesis
    proof (cases "st = LXMODEM_RECV_OK")
      case True
      have "header_outcome LXMODEM_RECV_OK l l1 ?c2"
        using out True by (simp add: header_outcome_def)
      from store_refines [OF c2(1) phase c2(2) this] obtain l' c' a' where
        "lxmodem_receive_store l1 ?c2 = Some (l', c')" "same_setup ?c2 c'" "rx_ready c'"
        "rx_spec_step a a'" "rx_refines base a' l' c'" "rx_progress l ?c2 l' c'" by blast
      moreover have "same_setup c ?c2" using same by simp
      ultimately show ?thesis using True step same(2) same_setup_trans [of c ?c2 c']
        by (intro exI [of _ l'] exI [of _ c'] exI [of _ a']) (simp add: rx_progress_def)
    next
      case False
      with out run have "nbRetry l1 = nbRetry l" "expectedBlkNumber l1 = expectedBlkNumber l"
        "if bFinished l1 then receivedBytes l1 = -1
         else receivedBytes l1 = receivedBytes l \<and> canCharReceived l1 < 2"
        by (auto simp: header_outcome_def)
      from retry_refines [OF c2(1) phase c2(2) this] obtain l' w' a' where
        "lxmodem_receive_retry l1 ?c2 = Some (l', ?c2\<lparr>world := w'\<rparr>)" "rx_spec_step a a'"
        "rx_refines base a' l' ?c2" "rx_progress l ?c2 l' (?c2\<lparr>world := w'\<rparr>)" by blast
      with False step same c2(2) show ?thesis
        by (intro exI [of _ l'] exI [of _ "c1\<lparr>world := w'\<rparr>"] exI [of _ a'])
          (simp add: rx_progress_def)
    qed
  qed
qed

end

section \<open>The whole loop\<close>

lemma rx_progress_rank:
  assumes "rx_progress l c l' c'" and "\<not> bFinished l'"
  shows "ram_room (ramfile c') * 11 + (10 - nbRetry l') < ram_room (ramfile c) * 11 + (10 - nbRetry l)"
  using assms by (auto simp: rx_progress_def)

context serial_line
begin

lemma loop_returns:
  "getchar_cb c = Some getc \<Longrightarrow> rx_ready c \<Longrightarrow> rx_spec_reachable a \<Longrightarrow> rx_refines base a l c \<Longrightarrow>
    \<exists>l' c' a'. lxmodem_receive_loop l c = Some (l', c') \<and> same_setup c c' \<and> rx_ready c' \<and>
      rx_spec_reachable a' \<and> phase a' \<noteq> Receiving \<and> rx_refines base a' l' c'"
proof (induction "ram_room (ramfile c) * 11 + (10 - nbRetry l)" arbitrary: l c a rule: less_induct)
  case less
  show ?case
  proof (cases "bFinished l")
    case True
    with less.prems show ?thesis
      by (intro exI [of _ l] exI [of _ c] exI [of _ a])
        (auto simp: lxmodem_receive_loop.simps rx_refines_def)
  next
    case False
    then have "phase a = Receiving" using less.prems(4) by (auto simp: rx_refines_def)
    from step_refines [OF less.prems(1,2,4) this] obtain l1 c1 a1 where
      step: "lxmodem_receive_step l c = Some (l1, c1)" and c1: "same_setup c c1" "rx_ready c1"
      and a1: "rx_spec_step a a1" "rx_refines base a1 l1 c1" and prog: "rx_progress l c l1 c1" by blast
    have loop: "lxmodem_receive_loop l c = lxmodem_receive_loop l1 c1"
      using False step by (simp add: lxmodem_receive_loop.simps [of l c])
    have reach: "rx_spec_reachable a1" using less.prems(3) a1(1) by (rule rx_spec_reachable.step)
    show ?thesis
    proof (cases "bFinished l1")
      case True
      with loop c1 a1 reach show ?thesis
        by (intro exI [of _ l1] exI [of _ c1] exI [of _ a1])
          (auto simp: lxmodem_receive_loop.simps [of l1] rx_refines_def)
    next
      case False
      have "getchar_cb c1 = Some getc" using c1(1) less.prems(1) by (simp add: same_setup_frame)
      from less.hyps [OF rx_progress_rank [OF prog False] this c1(2) reach a1(2)]
      show ?thesis using loop same_setup_trans [OF c1(1)] by metis
    qed
  qed
qed

lemma receive_returns:
  assumes "getchar_cb c = Some getc" and "rx_ready c"
  shows "\<exists>r c' a. lxmodem_receive c = Some (r, c') \<and> same_setup c c' \<and> ram_wf (ramfile c') \<and>
    rx_spec_reachable a \<and> phase a \<noteq> Receiving \<and>
    ram_contents (ramfile c') = ram_contents (ramfile c) @ concat (accepted a) \<and>
    r = (if phase a = Completed then word_of_nat (length (concat (accepted a))) else -1)"
proof -
  obtain p where p: "putchar_cb c = Some p" using assms(2) by (auto simp: rx_ready_def)
  let ?c = "c\<lparr>world := p (world c) [lxmodem_preambule_char c]\<rparr>"
  have "rx_refines (ram_contents (ramfile c)) rx_spec_start rx_start ?c"
    by (simp add: rx_refines_def rx_spec_start_def rx_start_def)
  moreover have "getchar_cb ?c = Some getc" "rx_ready ?c" using assms by simp_all
  ultimately obtain l' c' a where run: "lxmodem_receive_loop rx_start ?c = Some (l', c')"
    and c': "same_setup ?c c'" "rx_ready c'"
    and a: "rx_spec_reachable a" "phase a \<noteq> Receiving" "rx_refines (ram_contents (ramfile c)) a l' c'"
    using loop_returns [OF _ _ rx_spec_reachable.start] by blast
  have "same_setup c c'" using c'(1) by (simp add: same_setup_def)
  moreover have "lxmodem_receive c = Some (receivedBytes l', c')"
    using run p by (simp add: lxmodem_receive_def reply_simps)
  ultimately show ?thesis using a c'(2)
    by (intro exI [of _ "receivedBytes l'"] exI [of _ c'] exI [of _ a])
      (cases "phase a"; auto simp: rx_refines_def rx_ready_def)
qed

end

section \<open>Only checked blocks are stored\<close>

definition stores_checked_block ::
  "rx_locals \<Rightarrow> 'w modem_context \<Rightarrow> rx_locals \<Rightarrow> 'w modem_context \<Rightarrow> bool" where
  "stores_checked_block l c l' c' \<longleftrightarrow>
     (\<exists>k data. (k = 128 \<or> k = 1024) \<and> length data = unat k \<and>
        take (frame_size c k) (line_buffer (blk_buffer c')) =
          block_frame (block_with_crc c k) (crc16 c) (expectedBlkNumber l) data \<and>
        ram_contents (ramfile c') = ram_contents (ramfile c) @ data \<and>
        expectedBlkNumber l' = expectedBlkNumber l + 1 \<and>
        receivedBytes l' = receivedBytes l + k)"

lemma retry_keeps:
  "lxmodem_receive_retry l c = Some (l', c') \<Longrightarrow>
    ramfile c' = ramfile c \<and> expectedBlkNumber l' = expectedBlkNumber l"
  by (auto simp: lxmodem_receive_retry_def lxmodem_build_and_send_cancel_def lmodem_putchar_def
      Let_def split: if_splits bind_splits)

lemma store_keeps:
  assumes ready: "rx_ready c" and out: "header_outcome LXMODEM_RECV_OK l l1 c"
    and st: "lxmodem_receive_store l1 c = Some (l', c')"
  shows "ram_contents (ramfile c') = ram_contents (ramfile c) \<or> stores_checked_block l c l' c'"
proof -
  obtain p where p: "putchar_cb c = Some p" using ready by (auto simp: rx_ready_def)
  have wf: "ram_wf (ramfile c)" and need: "131 \<le> length (line_buffer (blk_buffer c))"
    using ready by (auto simp: rx_ready_def rx_line_need_def split: if_splits)
  have n: "unat (blksize l1) + 2 \<le> length (line_buffer (blk_buffer c))" "unat (blksize l1) \<le> 1024"
    using out need by (auto simp: header_outcome_def frame_size_def split: if_splits)
  from store_returns [OF wf p n] obtain w rf where
    cases: "if unat (blksize l1) < ram_room (ramfile c) \<or> blksize l1 = 0
     then lxmodem_receive_store l1 c = Some (stored_locals l1, c\<lparr>ramfile := rf, world := w\<rparr>) \<and>
       ram_contents rf = ram_contents (ramfile c) @
         take (unat (blksize l1)) (drop 2 (line_buffer (blk_buffer c))) \<and>
       ram_room rf = ram_room (ramfile c) - unat (blksize l1)
     else lxmodem_receive_store l1 c =
         Some (l1\<lparr>bFinished := True, receivedBytes := -1\<rparr>, c\<lparr>ramfile := rf, world := w\<rparr>) \<and>
       ram_contents rf = ram_contents (ramfile c)" by blast
  show ?thesis
  proof (cases "blksize l1 = 0 \<or> \<not> unat (blksize l1) < ram_room (ramfile c)")
    case True
    with cases st show ?thesis by (auto split: if_splits)
  next
    case False
    with out have "stores_checked_block l c (stored_locals l1) (c\<lparr>ramfile := rf, world := w\<rparr>)"
      unfolding stores_checked_block_def using cases n
      by (intro exI [of _ "blksize l1"]
          exI [of _ "take (unat (blksize l1)) (drop 2 (line_buffer (blk_buffer c)))"])
        (auto simp: header_outcome_def split: if_splits)
    with False cases st show ?thesis by (auto split: if_splits)
  qed
qed

context serial_line
begin

lemma step_stores:
  assumes get: "getchar_cb c = Some getc" and ready: "rx_ready c" and run: "\<not> bFinished l"
    and step: "lxmodem_receive_step l c = Some (l', c')"
  shows "ram_contents (ramfile c') = ram_contents (ramfile c) \<or> stores_checked_block l c l' c'"
proof -
  obtain got w where got: "lmodem_getchar_byte c = Some (got, c\<lparr>world := w\<rparr>)"
    using getchar_byte_returns [OF get] by blast
  show ?thesis
  proof (cases got)
    case None
    with got step have "lxmodem_receive_retry l (c\<lparr>world := w\<rparr>) = Some (l', c')"
      by (simp add: lxmodem_receive_step_def)
    from retry_keeps [OF this] show ?thesis by simp
  next
    case (Some h)
    have c: "getchar_cb (c\<lparr>world := w\<rparr>) = Some getc" "rx_ready (c\<lparr>world := w\<rparr>)" using get ready by simp_all
    obtain st l1 c1 where hd: "lxmodem_receive_header h l (c\<lparr>world := w\<rparr>) = Some (st, l1, c1)"
      and c1: "same_setup (c\<lparr>world := w\<rparr>) c1" "ramfile c1 = ramfile c" and out: "header_outcome st l l1 c1"
      using header_returns [OF c run, of h] by auto
    have same: "same_setup c c1" using c1(1) by (simp add: same_setup_def)
    obtain p where p: "putchar_cb c1 = Some p"
      using ready same by (auto simp: rx_ready_def same_setup_frame)
    obtain w2 where rep: "lxmodem_build_and_send_reply c1 st = Some (c1\<lparr>world := w2\<rparr>)"
      using reply_returns [OF p, of st] by blast
    let ?c2 = "c1\<lparr>world := w2\<rparr>"
    have step2: "(if st = LXMODEM_RECV_OK then lxmodem_receive_store l1 ?c2 else lxmodem_receive_retry l1 ?c2)
        = Some (l', c')"
      using got Some hd rep step by (simp add: lxmodem_receive_step_def)
    have "rx_ready c1"
      using rx_ready_same_setup [OF ready same] ready c1(2) by (simp add: rx_ready_def)
    then have "rx_ready ?c2" by simp
    then have "ram_contents (ramfile c') = ram_contents (ramfile c) \<or> stores_checked_block l ?c2 l' c'"
      if "st = LXMODEM_RECV_OK"
      using store_keeps [of ?c2 l l1 l' c'] step2 out that c1(2) by (simp add: header_outcome_def)
    moreover have "stores_checked_block l ?c2 l' c' = stores_checked_block l c l' c'"
      using same c1(2) by (simp add: stores_checked_block_def same_setup_frame)
    ultimately show ?thesis
      using step2 retry_keeps [of l1 ?c2 l' c'] c1(2) by (cases "st = LXMODEM_RECV_OK") auto
  qed
qed

end

section \<open>Properties\<close>

text \<open>
  C4: Over any serial port, whatever it delivers and however it fails, \<open>lxmodem_receive\<close> ends,
  stays inside its buffers, and does what the abstract receiver does: the file is the old
  contents and the accepted blocks in order, and the result is their size if the transfer was
  completed by an EOT, else \<open>-1\<close>; every accepted block has 128 or 1024 bytes, and there are never
  more than ten failures in a row. The set-up of the context is unchanged.
\<close>

theorem lxmodem_receive_ends:
  assumes "getchar_cb c = Some (serial_getchar rd)" and "rx_ready c"
  shows "\<exists>r c' a. lxmodem_receive c = Some (r, c') \<and> same_setup c c' \<and> ram_wf (ramfile c') \<and>
    rx_spec_reachable a \<and> phase a \<noteq> Receiving \<and> failures a \<le> 10 \<and>
    (\<forall>b \<in> set (accepted a). length b = 128 \<or> length b = 1024) \<and>
    ram_contents (ramfile c') = ram_contents (ramfile c) @ concat (accepted a) \<and>
    r = (if phase a = Completed then word_of_nat (length (concat (accepted a))) else -1)"
  using tty.receive_returns [OF assms] rx_spec_invariant by blast

theorem lxmodem_receive_ends_witness:
  "\<exists>r c' a. lxmodem_receive ((memset_context (unset_context ()))\<lparr>getchar_cb := Some (serial_getchar (\<lambda>w n. (None, w))),
      putchar_cb := Some (\<lambda>w data. w), blk_buffer :=
        \<lparr>line_buffer = replicate 131 0, line_current_size = 0, line_max_size = 131\<rparr>\<rparr>) = Some (r, c') \<and>
    rx_spec_reachable a \<and> phase a \<noteq> Receiving"
  using lxmodem_receive_ends [of "(memset_context (unset_context ()))\<lparr>getchar_cb := Some (serial_getchar (\<lambda>w n. (None, w))),
      putchar_cb := Some (\<lambda>w data. w), blk_buffer :=
        \<lparr>line_buffer = replicate 131 0, line_current_size = 0, line_max_size = 131\<rparr>\<rparr>" "\<lambda>w n. (None, w)"]
  by (fastforce simp: rx_ready_def rx_line_need_def memset_context_def ram_wf_def)

text \<open>
  C5: The receiver stores only checked blocks. A round of \<open>lxmodem_receive\<close> leaves the file as it
  is, or appends exactly the data of one block of 128 or 1024 bytes that lies in the line buffer
  as a frame with the expected number, its complement and a matching checksum or CRC; then the
  expected number and the byte count move on.
\<close>

theorem lxmodem_receive_step_stores_checked:
  assumes "getchar_cb c = Some (serial_getchar rd)" and "rx_ready c" and "\<not> bFinished l"
    and "lxmodem_receive_step l c = Some (l', c')"
  shows "ram_contents (ramfile c') = ram_contents (ramfile c) \<or>
    (\<exists>k data. (k = 128 \<or> k = 1024) \<and> length data = unat k \<and>
       take (frame_size c k) (line_buffer (blk_buffer c')) =
         block_frame (block_with_crc c k) (crc16 c) (expectedBlkNumber l) data \<and>
       ram_contents (ramfile c') = ram_contents (ramfile c) @ data \<and>
       expectedBlkNumber l' = expectedBlkNumber l + 1 \<and> receivedBytes l' = receivedBytes l + k)"
  using tty.step_stores [OF assms] unfolding stores_checked_block_def .

theorem lxmodem_receive_step_stores_checked_witness:
  "\<exists>l' c'. lxmodem_receive_step rx_start
      ((memset_context (unset_context ()))\<lparr>getchar_cb := Some (serial_getchar (\<lambda>w n. (None, w))),
        putchar_cb := Some (\<lambda>w data. w), blk_buffer :=
          \<lparr>line_buffer = replicate 131 0, line_current_size = 0, line_max_size = 131\<rparr>\<rparr>) = Some (l', c') \<and>
    ram_contents (ramfile c') = []"
proof -
  let ?c = "(memset_context (unset_context ()))\<lparr>getchar_cb := Some (serial_getchar (\<lambda>w n. (None, w))),
        putchar_cb := Some (\<lambda>w data. w), blk_buffer :=
          \<lparr>line_buffer = replicate 131 0, line_current_size = 0, line_max_size = 131\<rparr>\<rparr>"
  have step: "lxmodem_receive_step rx_start ?c = Some (rx_start\<lparr>nbRetry := 1\<rparr>, ?c)"
    by (simp add: lxmodem_receive_step_def lmodem_getchar_byte_def lmodem_getchar_def serial_getchar_def
        serial_read_def serial_read_loop.simps lxmodem_receive_retry_def rx_start_def)
  from lxmodem_receive_step_stores_checked [OF _ _ _ step] show ?thesis
    using step by (auto simp: rx_ready_def rx_line_need_def memset_context_def ram_wf_def rx_start_def
        ram_contents_def)
qed

end
