(* ===== verification/Tx.thy ===== *)
theory Tx
  imports Rx
begin

text \<open>
  \<open>src/lmodem_tx.c\<close>, the XMODEM part: building one data block in the line buffer
  (\<open>lxmode_build_and_send_one_data_block\<close>), sending it again (\<open>lxmode_reemit_previous_block\<close>), the
  waits for one character, and the emission loop \<open>lxmode_send_data_blocks\<close>. The loop is the
  recursive \<open>send_data_blocks_loop\<close> over one round of its body; its locals are the record
  \<open>tx_locals\<close>. The counters \<open>timeout\<close> and \<open>retry\<close>, which a guard stops at 10, are naturals.
\<close>

section \<open>One data block\<close>

text \<open>The bytes of the line buffer sent, from its start.\<close>

definition putchar_line :: "'w modem_context \<Rightarrow> u32 \<Rightarrow> 'w modem_context option" where
  "putchar_line c n = do {
     frame \<leftarrow> mem_get (line_buffer (blk_buffer c)) 0 (unat n);
     lmodem_putchar c frame
   }"

text \<open>
  The trailer \<open>lxmode_build_and_send_one_data_block\<close> stores after the \<open>k\<close> data bytes at
  \<open>buffer + 3\<close>: the buffer, and the size of the whole block.
\<close>

definition store_trailer ::
  "crc16_context \<Rightarrow> u8 list \<Rightarrow> u32 \<Rightarrow> bool \<Rightarrow> (u8 list \<times> u32) option" where
  "store_trailer ctx buf k with_crc = do {
     data \<leftarrow> mem_get buf 3 (unat k);
     let datablockSize = 3 + k + 1;
     if with_crc then do {
       let crc = crc16_doCalcul ctx data LXMODEM_CRC16_INIT_VALUE LXMODEM_CRC16_XOR_FINAL;
       buf \<leftarrow> mem_write buf (unat (3 + k)) (crc_hi crc);
       buf \<leftarrow> mem_write buf (unat (3 + k + 1)) (crc_lo crc);
       Some (buf, datablockSize + 1)
     } else do {
       buf \<leftarrow> mem_write buf (unat (3 + k)) (lxmodem_calcul_chksum data);
       Some (buf, datablockSize)
     }
   }"

text \<open>The result: whether this was the EOT, and \<open>*nbEmitted\<close>.\<close>

definition lxmode_build_and_send_one_data_block ::
  "'w modem_context \<Rightarrow> u8 \<Rightarrow> u32 \<Rightarrow> bool \<Rightarrow> (bool \<times> u32 \<times> 'w modem_context) option" where
  "lxmode_build_and_send_one_data_block c blkNo defaultBlksize with_crc =
     (let remainingBytes = lmodem_buffer_get_size (ramfile c);
          bytesToRead = (if defaultBlksize < remainingBytes then defaultBlksize else remainingBytes);
          buf = line_buffer (blk_buffer c)
      in if bytesToRead = 0 then do {
           buf \<leftarrow> mem_write buf 0 EOT;
           c \<leftarrow> putchar_line (c\<lparr>blk_buffer := (blk_buffer c)\<lparr>line_buffer := buf\<rparr>\<rparr>) 1;
           Some (True, 0, c\<lparr>blk_buffer := (blk_buffer c)\<lparr>line_current_size := 1\<rparr>\<rparr>)
         } else do {
           let effectiveBlksize = (if bytesToRead \<le> 128 then 128 else 1024);
           buf \<leftarrow> mem_write buf 0 (if bytesToRead \<le> 128 then SOH else STX);
           buf \<leftarrow> mem_write buf 1 blkNo;
           buf \<leftarrow> mem_write buf 2 (NOT blkNo);
           (n, chunk, file) \<leftarrow> lmodem_buffer_read (ramfile c) bytesToRead;
           buf \<leftarrow> mem_put buf 3 chunk;
           buf \<leftarrow>
             (if remainingBytes < effectiveBlksize
              then mem_set buf (3 + unat bytesToRead) SUB (unat (effectiveBlksize - remainingBytes))
              else Some buf);
           (buf, datablockSize) \<leftarrow> store_trailer (crc16 c) buf effectiveBlksize with_crc;
           c \<leftarrow> putchar_line
             (c\<lparr>ramfile := file, blk_buffer := (blk_buffer c)\<lparr>line_buffer := buf\<rparr>\<rparr>) datablockSize;
           Some (False, effectiveBlksize,
             c\<lparr>blk_buffer := (blk_buffer c)\<lparr>line_current_size := datablockSize\<rparr>\<rparr>)
         })"

definition lxmode_reemit_previous_block :: "'w modem_context \<Rightarrow> 'w modem_context option" where
  "lxmode_reemit_previous_block c = putchar_line c (line_current_size (blk_buffer c))"

section \<open>Waiting for a character\<close>

text \<open>
  \<open>while ((!bReceived) && (timeout < 10))\<close> around a one-byte read, as in \<open>lxmodem_emit\<close>,
  \<open>lxmode_send_data_blocks\<close> and \<open>lmodem_wait_reception\<close>: the byte, or \<open>None\<close> after ten failures.
\<close>

function wait_char :: "'w modem_context \<Rightarrow> nat \<Rightarrow> (u8 option \<times> 'w modem_context) option" where
  "wait_char c timeout =
     (if timeout < 10 then do {
        (bReceived, c) \<leftarrow> lmodem_getchar_byte c;
        (case bReceived of
           Some x \<Rightarrow> Some (Some x, c)
         | None \<Rightarrow> wait_char c (timeout + 1))
      } else Some (None, c))"
  by pat_completeness auto
termination
  by (relation "measure (\<lambda>(c, timeout). 10 - timeout)") auto

declare wait_char.simps [simp del]

definition lmodem_wait_reception ::
  "'w modem_context \<Rightarrow> (u8 option \<times> 'w modem_context) option" where
  "lmodem_wait_reception c = wait_char c 0"

text \<open>Another character than the expected one counts as a timeout.\<close>

function wait_reception_of :: "'w modem_context \<Rightarrow> u8 \<Rightarrow> nat \<Rightarrow> (bool \<times> 'w modem_context) option" where
  "wait_reception_of c cntrlChar timeout =
     (if timeout < 10 then do {
        (bReceived, c) \<leftarrow> lmodem_getchar_byte c;
        if bReceived = Some cntrlChar then Some (True, c)
        else wait_reception_of c cntrlChar (timeout + 1)
      } else Some (False, c))"
  by pat_completeness auto
termination
  by (relation "measure (\<lambda>(c, x, timeout). 10 - timeout)") auto

declare wait_reception_of.simps [simp del]

definition lmodem_wait_reception_of ::
  "'w modem_context \<Rightarrow> u8 \<Rightarrow> (bool \<times> 'w modem_context) option" where
  "lmodem_wait_reception_of c cntrlChar = wait_reception_of c cntrlChar 0"

section \<open>The emission loop\<close>

definition lxmodem_decode_preambule :: "'w modem_context \<Rightarrow> u8 \<Rightarrow> bool" where
  "lxmodem_decode_preambule c preambule =
     (if preambule = NAK then opts c = Lxmodem_128_with_chksum
      else if preambule = char_C then
        protocol c = YMODEM \<or> opts c = Lxmodem_128_with_crc \<or> opts c = Lxmodem_1k
      else False)"

text \<open>\<open>defaultBlksize\<close> and \<open>withCrc\<close>, as \<open>lxmode_send_data_blocks\<close> chooses them.\<close>

definition tx_block_mode :: "'w modem_context \<Rightarrow> u32 \<times> bool" where
  "tx_block_mode c =
     (case protocol c of
        XMODEM \<Rightarrow>
          (case opts c of
             Lxmodem_128_with_chksum \<Rightarrow> (128, False)
           | Lxmodem_128_with_crc \<Rightarrow> (128, True)
           | Lxmodem_1k \<Rightarrow> (1024, True))
      | YMODEM \<Rightarrow> (1024, True))"

record tx_locals =
  tx_finished :: bool
  blkNo :: u8
  emittedBytes :: u32
  nbEmitted :: u32
  isLastBlock :: bool
  retry :: nat

definition tx_start :: tx_locals where
  "tx_start = \<lparr>tx_finished = False, blkNo = 1, emittedBytes = 0, nbEmitted = 0,
     isLastBlock = False, retry = 0\<rparr>"

text \<open>The first part of a round: a new block, or the previous one again.\<close>

definition send_data_block ::
  "tx_locals \<Rightarrow> 'w modem_context \<Rightarrow> (tx_locals \<times> 'w modem_context) option" where
  "send_data_block l c =
     (if retry l = 0 then do {
        let (defaultBlksize, with_crc) = tx_block_mode c;
        (last, n, c) \<leftarrow> lxmode_build_and_send_one_data_block c (blkNo l) defaultBlksize with_crc;
        Some (l\<lparr>isLastBlock := last, nbEmitted := n\<rparr>, c)
      } else do {
        c \<leftarrow> lxmode_reemit_previous_block c;
        Some (l, c)
      })"

text \<open>The second part: the answer, \<open>None\<close> after ten timeouts.\<close>

definition handle_answer :: "u8 option \<Rightarrow> tx_locals \<Rightarrow> tx_locals" where
  "handle_answer answer l =
     (let l =
        (case answer of
           None \<Rightarrow> l\<lparr>retry := retry l + 1\<rparr>
         | Some ackBytes \<Rightarrow>
             if ackBytes = ACK then
               (let l = l\<lparr>blkNo := blkNo l + 1, retry := 0\<rparr>
                in if isLastBlock l then l\<lparr>tx_finished := True\<rparr>
                   else l\<lparr>emittedBytes := emittedBytes l + nbEmitted l\<rparr>)
             else if ackBytes = NAK then l\<lparr>retry := retry l + 1\<rparr>
             else
               (let l = l\<lparr>retry := retry l + 1\<rparr>
                in if retry l \<ge> 2 then l\<lparr>emittedBytes := -1, tx_finished := True\<rparr> else l))
      in if retry l \<ge> 10 then l\<lparr>emittedBytes := -1, tx_finished := True\<rparr> else l)"

definition send_data_blocks_step ::
  "tx_locals \<Rightarrow> 'w modem_context \<Rightarrow> (tx_locals \<times> 'w modem_context) option" where
  "send_data_blocks_step l c = do {
     (l, c) \<leftarrow> send_data_block l c;
     (answer, c) \<leftarrow> wait_char c 0;
     Some (handle_answer answer l, c)
   }"

partial_function (option) send_data_blocks_loop ::
  "tx_locals \<Rightarrow> 'w modem_context \<Rightarrow> (tx_locals \<times> 'w modem_context) option" where
  "send_data_blocks_loop l c =
     (if tx_finished l then Some (l, c)
      else do {
        (l, c) \<leftarrow> send_data_blocks_step l c;
        send_data_blocks_loop l c
      })"

definition lxmode_send_data_blocks :: "'w modem_context \<Rightarrow> (u32 \<times> 'w modem_context) option" where
  "lxmode_send_data_blocks c = do {
     (l, c) \<leftarrow> send_data_blocks_loop tx_start c;
     Some (emittedBytes l, c)
   }"

definition lxmodem_emit :: "'w modem_context \<Rightarrow> (u32 \<times> 'w modem_context) option" where
  "lxmodem_emit c = do {
     (preambule, c) \<leftarrow> wait_char c 0;
     (case preambule of
        None \<Rightarrow> Some (0, c)
      | Some p \<Rightarrow>
          if \<not> lxmodem_decode_preambule c p then do {
            c \<leftarrow> lxmodem_build_and_send_cancel c;
            Some (-1, c)
          } else lxmode_send_data_blocks c)
   }"

section \<open>What goes on the wire\<close>

text \<open>
  A block carries up to \<open>d\<close> bytes of the file, padded with SUB to 128 bytes, or to 1024 if
  they are more than 128.
\<close>

definition block_size :: "u8 list \<Rightarrow> nat" where
  "block_size chunk = (if length chunk \<le> 128 then 128 else 1024)"

definition pad_block :: "u8 list \<Rightarrow> u8 list" where
  "pad_block chunk = chunk @ replicate (block_size chunk - length chunk) SUB"

definition tx_frame :: "bool \<Rightarrow> crc16_context \<Rightarrow> u8 \<Rightarrow> u8 list \<Rightarrow> u8 list" where
  "tx_frame with_crc ctx n chunk =
     (if length chunk \<le> 128 then SOH else STX) # block_frame with_crc ctx n (pad_block chunk)"

lemma length_pad_block: "length chunk \<le> 1024 \<Longrightarrow> length (pad_block chunk) = block_size chunk"
  by (auto simp: pad_block_def block_size_def)

lemma length_tx_frame:
  "length chunk \<le> 1024 \<Longrightarrow>
    length (tx_frame with_crc ctx n chunk) = block_size chunk + (if with_crc then 5 else 4)"
  by (simp add: tx_frame_def length_block_frame length_pad_block)

lemma tx_frame_nonempty [simp]: "tx_frame with_crc ctx n chunk \<noteq> []"
  by (simp add: tx_frame_def)

lemma store_trailer_next:
  assumes k: "unat k = length data" "unat k \<le> 1024"
    and room: "length (block_trailer with_crc ctx data) \<le> length rest"
  shows "store_trailer ctx ([h, n, m] @ data @ rest) k with_crc =
    Some ([h, n, m] @ data @ block_trailer with_crc ctx data @
            drop (length (block_trailer with_crc ctx data)) rest,
          k + (if with_crc then 5 else 4))"
proof -
  have data: "mem_get ([h, n, m] @ data @ rest) 3 (unat k) = Some data"
    by (rule mem_get_mid) (simp_all add: k)
  have i: "unat (3 + k) = length ([h, n, m] @ data)" "unat (3 + k + 1) = length ([h, n, m] @ data @ [x])" for x
    using k by (simp_all add: unat_word_ariths)
  have first: "mem_write ([h, n, m] @ data @ rest) (unat (3 + k)) x
      = Some ([h, n, m] @ data @ x # drop 1 rest)" for x
    using mem_write_next [OF i(1), of rest x] room
    by (cases rest) (auto simp: length_block_trailer split: if_splits)
  have second: "mem_write ([h, n, m] @ data @ x # drop 1 rest) (unat (3 + k + 1)) y
      = Some ([h, n, m] @ data @ x # y # drop 2 rest)" if with_crc for x y
  proof -
    have "drop 1 rest \<noteq> []" using room that by (auto simp: length_block_trailer)
    from mem_write_next [OF i(2) this, of x y] show ?thesis by (simp add: numeral_2_eq_2)
  qed
  show ?thesis
  proof (cases with_crc)
    case True
    show ?thesis
      unfolding store_trailer_def data using True first second
      by (simp add: block_trailer_def Let_def numeral_2_eq_2 add.commute [of k])
  next
    case False
    show ?thesis
      unfolding store_trailer_def data using False first
      by (simp add: block_trailer_def add.commute [of k])
  qed
qed

lemma putchar_line_returns:
  assumes "putchar_cb c = Some p" and "line_buffer (blk_buffer c) = frame @ rest" and "unat n = length frame"
  shows "putchar_line c n = Some (c\<lparr>world := p (world c) frame\<rparr>)"
  using assms by (simp add: putchar_line_def mem_get_def putchar_returns)

text \<open>The file, and the sizes the code computes from it.\<close>

definition block_bytes :: "u32 \<Rightarrow> u8 list \<Rightarrow> u8 list" where
  "block_bytes d unread = take (unat d) unread"

lemma bytes_to_read:
  assumes "ram_wf b"
  shows "unat (if d < lmodem_buffer_get_size b then d else lmodem_buffer_get_size b)
    = length (block_bytes d (ram_unread b))"
  using get_size_unread [OF assms]
  by (auto simp: block_bytes_def word_less_nat_alt min_def)

lemma send_eot_returns:
  assumes wf: "ram_wf (ramfile c)" and p: "putchar_cb c = Some p"
    and empty: "ram_unread (ramfile c) = []" and line: "line_buffer (blk_buffer c) \<noteq> []"
  shows "lxmode_build_and_send_one_data_block c n d with_crc =
    Some (True, 0, c\<lparr>world := p (world c) [EOT], blk_buffer := (blk_buffer c)
      \<lparr>line_buffer := EOT # drop 1 (line_buffer (blk_buffer c)), line_current_size := 1\<rparr>\<rparr>)"
proof -
  have "lmodem_buffer_get_size (ramfile c) = 0"
    using get_size_unread [OF wf] empty by (simp add: unat_eq_zero)
  moreover have "mem_write (line_buffer (blk_buffer c)) 0 EOT
      = Some ([EOT] @ drop 1 (line_buffer (blk_buffer c)))"
    using mem_write_next [of 0 "[]" "line_buffer (blk_buffer c)"] line by simp
  ultimately show ?thesis
    by (simp add: lxmode_build_and_send_one_data_block_def putchar_line_def mem_get_def
        putchar_returns p)
qed

text \<open>Padding a chunk in the buffer: \<open>memset\<close> is called only when the file ends inside the block.\<close>

lemma pad_in_buffer:
  assumes wf: "ram_wf b" and d: "d = 128 \<or> d = 1024" and r: "r = lmodem_buffer_get_size b"
    and ch: "ch = block_bytes d (ram_unread b)" "ch \<noteq> []"
    and e: "e = (if length ch \<le> 128 then 128 else 1024)"
    and room: "block_size ch \<le> length old + length ch"
    and n: "unat n = length ch"
  shows "(if r < e then mem_set ([h, m, k] @ ch @ old) (3 + unat n) SUB (unat (e - r))
      else Some ([h, m, k] @ ch @ old)) =
    Some ([h, m, k] @ pad_block ch @ drop (block_size ch - length ch) old)"
proof -
  have rlen: "unat r = length (ram_unread b)" using get_size_unread [OF wf] r by simp
  have elen: "unat e = block_size ch" by (simp add: e block_size_def)
  have clen: "length ch = min (unat d) (unat r)" by (simp add: ch block_bytes_def rlen min.commute)
  show ?thesis
  proof (cases "r < e")
    case True
    then have less: "unat r < block_size ch" using elen by (simp add: word_less_nat_alt)
    then have "length ch = unat r"
      using clen d by (auto simp: block_size_def min_def split: if_splits)
    moreover have "unat (e - r) = block_size ch - unat r"
      using less elen by (simp add: unat_u32_sub)
    ultimately have pad: "unat (e - r) = block_size ch - length ch"
      by simp
    have "mem_put (([h, m, k] @ ch) @ old) (3 + unat n) (replicate (block_size ch - length ch) SUB)
      = Some (([h, m, k] @ ch) @ replicate (block_size ch - length ch) SUB @
          drop (block_size ch - length ch) old)"
      using room n by (subst mem_put_next) auto
    with True show ?thesis by (simp add: mem_set_def pad pad_block_def)
  next
    case False
    then have "block_size ch \<le> unat r" using elen by (simp add: word_less_nat_alt)
    then have "block_size ch \<le> length ch"
      using clen d by (auto simp: block_size_def min_def split: if_splits)
    with False show ?thesis by (simp add: pad_block_def)
  qed
qed

lemma send_block_returns:
  assumes wf: "ram_wf (ramfile c)" and p: "putchar_cb c = Some p"
    and d: "d = 128 \<or> d = 1024"
    and ch: "ch = block_bytes d (ram_unread (ramfile c))" "ch \<noteq> []"
    and frame: "frame = tx_frame with_crc (crc16 c) n ch"
    and line: "length frame \<le> length (line_buffer (blk_buffer c))"
  shows "\<exists>rf. lxmode_build_and_send_one_data_block c n d with_crc =
      Some (False, word_of_nat (block_size ch), c\<lparr>ramfile := rf, world := p (world c) frame,
        blk_buffer := (blk_buffer c)
          \<lparr>line_buffer := frame @ drop (length frame) (line_buffer (blk_buffer c)),
            line_current_size := word_of_nat (length frame)\<rparr>\<rparr>) \<and>
    ram_wf rf \<and> ram_unread rf = drop (length ch) (ram_unread (ramfile c)) \<and>
    ram_contents rf = ram_contents (ramfile c) \<and> ram_room rf = ram_room (ramfile c)"
proof -
  define old where "old = line_buffer (blk_buffer c)"
  define r where "r = lmodem_buffer_get_size (ramfile c)"
  define b where "b = (if d < r then d else r)"
  define e :: u32 where "e = (if b \<le> 128 then 128 else 1024)"
  define h where "h = (if b \<le> 128 then SOH else STX)"
  have clen: "length ch \<le> 1024" "unat d \<le> 1024" using d by (auto simp: ch block_bytes_def)
  have b: "unat b = length ch" using bytes_to_read [OF wf, of d] by (simp only: b_def r_def ch(1))
  then have b0: "b \<noteq> 0" "b \<le> 128 \<longleftrightarrow> length ch \<le> 128"
    using ch(2) by (auto simp: word_le_nat_alt)
  have e: "unat e = block_size ch" "e = word_of_nat (block_size ch)"
    by (simp_all add: e_def b0(2) block_size_def)
  have flen: "length frame = block_size ch + (if with_crc then 5 else 4)"
    by (simp add: frame length_tx_frame clen)
  have room: "block_size ch + (if with_crc then 5 else 4) \<le> length old"
    using line by (simp add: flen old_def)
  have bs: "length ch \<le> block_size ch" "128 \<le> block_size ch" "block_size ch \<le> 1024"
    using clen by (auto simp: block_size_def)
  obtain rf m where rd: "lmodem_buffer_read (ramfile c) b = Some (m, ch, rf)"
    and rf: "ram_wf rf" "ram_unread rf = drop (length ch) (ram_unread (ramfile c))"
      "ram_contents rf = ram_contents (ramfile c)" "ram_room rf = ram_room (ramfile c)"
    using buffer_read_unread [OF wf, of b] b clen bs
    by (auto simp: ch block_bytes_def min_def split: if_splits)
  have w0: "mem_write old 0 h = Some ([h] @ drop 1 old)"
    using mem_write_next [of 0 "[]" old h] room bs by fastforce
  have w1: "mem_write ([h] @ drop 1 old) 1 n = Some ([h, n] @ drop 2 old)"
    using mem_write_next [of 1 "[h]" "drop 1 old" n] room bs by (simp add: numeral_2_eq_2)
  have w2: "mem_write ([h, n] @ drop 2 old) 2 (NOT n) = Some ([h, n, NOT n] @ drop 3 old)"
    using mem_write_next [of 2 "[h, n]" "drop 2 old" "NOT n"] room bs by (simp add: numeral_3_eq_3)
  have three: "length ch \<le> length old - 3" "block_size ch \<le> length old - 3"
    "block_size ch \<le> length (drop (3 + length ch) old) + length ch"
    using room bs by (auto split: if_splits)
  have put: "mem_put ([h, n, NOT n] @ drop 3 old) 3 ch
      = Some ([h, n, NOT n] @ ch @ drop (3 + length ch) old)"
    using mem_put_next [of 3 "[h, n, NOT n]" ch "drop 3 old"] three by (simp add: add.commute)
  have pad: "(if r < e then mem_set ([h, n, NOT n] @ ch @ drop (3 + length ch) old) (3 + unat b) SUB
        (unat (e - r)) else Some ([h, n, NOT n] @ ch @ drop (3 + length ch) old)) =
      Some ([h, n, NOT n] @ pad_block ch @ drop (3 + block_size ch) old)"
    using pad_in_buffer [OF wf d r_def ch, of e "drop (3 + length ch) old" b h n "NOT n"] b three bs
    by (simp add: e_def b0(2) add.commute [of 3 "block_size ch"])
  have "length (block_trailer with_crc (crc16 c) (pad_block ch)) \<le> length (drop (3 + block_size ch) old)"
    using room by (auto simp: length_block_trailer)
  from store_trailer_next [OF _ _ this, of e h n "NOT n"] e bs
  have trailer: "store_trailer (crc16 c) ([h, n, NOT n] @ pad_block ch @ drop (3 + block_size ch) old) e with_crc
      = Some (frame @ drop (length frame) old, e + (if with_crc then 5 else 4))"
    by (simp add: length_pad_block clen flen length_block_trailer)
      (simp add: frame tx_frame_def block_frame_def h_def b0(2) add.commute)
  have size: "e + (if with_crc then 5 else 4) = word_of_nat (length frame)"
    by (simp add: flen e)
  have "unat (word_of_nat (length frame) :: u32) = length frame"
    using bs by (intro unat_u32_of_nat) (simp add: flen)
  then have put_line: "putchar_line (c\<lparr>ramfile := rf, blk_buffer := (blk_buffer c)
        \<lparr>line_buffer := frame @ drop (length frame) old\<rparr>\<rparr>) (word_of_nat (length frame)) =
      Some (c\<lparr>ramfile := rf, blk_buffer := (blk_buffer c)
        \<lparr>line_buffer := frame @ drop (length frame) old\<rparr>, world := p (world c) frame\<rparr>)"
    using p by (subst putchar_line_returns [of _ p]) auto
  have "lxmode_build_and_send_one_data_block c n d with_crc =
      Some (False, word_of_nat (block_size ch), c\<lparr>ramfile := rf, world := p (world c) frame,
        blk_buffer := (blk_buffer c) \<lparr>line_buffer := frame @ drop (length frame) old,
          line_current_size := word_of_nat (length frame)\<rparr>\<rparr>)"
    unfolding lxmode_build_and_send_one_data_block_def r_def [symmetric] b_def [symmetric]
      Let_def old_def [symmetric]
    by (simp only: h_def [symmetric] e_def [symmetric] e(2) [symmetric] b0(1) if_False
        w0 w1 w2 rd put pad trailer size put_line bind.bind_lunit prod.case) simp
  then show ?thesis using rf by (auto simp: old_def)
qed

lemma reemit_returns:
  assumes "putchar_cb c = Some p" and "line_buffer (blk_buffer c) = frame @ rest"
    and "unat (line_current_size (blk_buffer c)) = length frame"
  shows "lxmode_reemit_previous_block c = Some (c\<lparr>world := p (world c) frame\<rparr>)"
  unfolding lxmode_reemit_previous_block_def by (rule putchar_line_returns) (use assms in auto)

section \<open>The abstract sender\<close>

text \<open>A file is cut into chunks of \<open>d\<close> bytes; the empty chunk stands for the EOT.\<close>

function chunks :: "nat \<Rightarrow> u8 list \<Rightarrow> u8 list list" where
  "chunks d xs = (if xs = [] \<or> d = 0 then [] else take d xs # chunks d (drop d xs))"
  by pat_completeness auto
termination
  by (relation "measure (\<lambda>(d, xs). length xs)") auto

declare chunks.simps [simp del]

lemma chunks_Nil [simp]: "chunks d [] = []"
  by (simp add: chunks.simps)

lemma chunks_next: "xs \<noteq> [] \<Longrightarrow> 0 < d \<Longrightarrow> chunks d xs = take d xs # chunks d (drop d xs)"
  by (simp add: chunks.simps)

lemma concat_chunks: "0 < d \<Longrightarrow> concat (chunks d xs) = xs"
proof (induction d xs rule: chunks.induct)
  case (1 d xs)
  then show ?case by (cases "xs = []") (simp_all add: chunks_next)
qed

datatype tx_phase = Sending | Sent | Gave_up

record tx_spec =
  acked :: "u8 list list"
  current :: "u8 list option"
  unsent :: "u8 list"
  tries :: nat
  outcome :: tx_phase

definition tx_spec_start :: "u8 list \<Rightarrow> tx_spec" where
  "tx_spec_start contents =
     \<lparr>acked = [], current = None, unsent = contents, tries = 0, outcome = Sending\<rparr>"

text \<open>Before it waits, the sender has a chunk outstanding: the one not yet acknowledged, or a new one.\<close>

definition tx_offer :: "nat \<Rightarrow> tx_spec \<Rightarrow> tx_spec" where
  "tx_offer d a =
     (case current a of
        None \<Rightarrow> a\<lparr>current := Some (take d (unsent a)), unsent := drop d (unsent a)\<rparr>
      | Some _ \<Rightarrow> a)"

text \<open>
  A step is one round with the receiver, and its label says what passes between the two: the bytes
  sent, which are the wire form of the outstanding chunk under the number of the next block, and the
  answer, \<open>None\<close> when nothing comes. \<open>wire\<close> is that wire form. Only an ACK takes the sender to the
  next chunk; it gives up at the tenth failure in a row, and at the second one if that is another
  character than NAK.
\<close>

type_synonym tx_round = "u8 list \<times> u8 option"

inductive tx_spec_step ::
  "(u8 \<Rightarrow> u8 list \<Rightarrow> u8 list) \<Rightarrow> nat \<Rightarrow> tx_spec \<Rightarrow> tx_round \<Rightarrow> tx_spec \<Rightarrow> bool" for wire d where
  ack: "outcome a = Sending \<Longrightarrow> current (tx_offer d a) = Some ch \<Longrightarrow> ch \<noteq> [] \<Longrightarrow>
    tx_spec_step wire d a (wire (word_of_nat (length (acked a)) + 1) ch, Some ACK)
      ((tx_offer d a)\<lparr>acked := acked a @ [ch], current := None, tries := 0\<rparr>)"
| ack_end: "outcome a = Sending \<Longrightarrow> current (tx_offer d a) = Some [] \<Longrightarrow>
    tx_spec_step wire d a (wire (word_of_nat (length (acked a)) + 1) [], Some ACK)
      ((tx_offer d a)\<lparr>current := None, tries := 0, outcome := Sent\<rparr>)"
| again: "outcome a = Sending \<Longrightarrow> current (tx_offer d a) = Some ch \<Longrightarrow> answer \<noteq> Some ACK \<Longrightarrow>
    tries a < 9 \<Longrightarrow> answer = None \<or> answer = Some NAK \<or> tries a = 0 \<Longrightarrow>
    tx_spec_step wire d a (wire (word_of_nat (length (acked a)) + 1) ch, answer)
      ((tx_offer d a)\<lparr>tries := tries a + 1\<rparr>)"
| give_up: "outcome a = Sending \<Longrightarrow> current (tx_offer d a) = Some ch \<Longrightarrow> answer \<noteq> Some ACK \<Longrightarrow>
    9 \<le> tries a \<or> answer \<noteq> None \<and> answer \<noteq> Some NAK \<and> 0 < tries a \<Longrightarrow>
    tx_spec_step wire d a (wire (word_of_nat (length (acked a)) + 1) ch, answer)
      ((tx_offer d a)\<lparr>tries := tries a + 1, outcome := Gave_up\<rparr>)"

text \<open>A run from the start, with the rounds it took.\<close>

inductive tx_spec_run ::
  "(u8 \<Rightarrow> u8 list \<Rightarrow> u8 list) \<Rightarrow> nat \<Rightarrow> u8 list \<Rightarrow> tx_round list \<Rightarrow> tx_spec \<Rightarrow> bool" for wire d contents where
  start: "tx_spec_run wire d contents [] (tx_spec_start contents)"
| step: "tx_spec_run wire d contents rs a \<Longrightarrow> tx_spec_step wire d a r a' \<Longrightarrow>
    tx_spec_run wire d contents (rs @ [r]) a'"

definition outstanding :: "tx_spec \<Rightarrow> u8 list list" where
  "outstanding a = (case current a of Some ch \<Rightarrow> if ch = [] then [] else [ch] | None \<Rightarrow> [])"

definition tx_spec_inv :: "nat \<Rightarrow> u8 list \<Rightarrow> tx_spec \<Rightarrow> bool" where
  "tx_spec_inv d contents a \<longleftrightarrow>
     acked a @ outstanding a @ chunks d (unsent a) = chunks d contents \<and>
     (current a = Some [] \<longrightarrow> unsent a = []) \<and>
     (outcome a = Sent \<longrightarrow> current a = None \<and> unsent a = []) \<and>
     (outcome a = Sending \<longrightarrow> tries a < 10 \<and> (current a = None \<longleftrightarrow> tries a = 0)) \<and>
     (case current a of Some ch \<Rightarrow> length ch \<le> d | None \<Rightarrow> True)"

lemma tx_offer_inv:
  assumes "tx_spec_inv d contents a" and "0 < d"
  shows "acked (tx_offer d a) @ outstanding (tx_offer d a) @ chunks d (unsent (tx_offer d a)) = chunks d contents"
    and "current (tx_offer d a) = Some [] \<longrightarrow> unsent (tx_offer d a) = []"
    and "\<exists>ch. current (tx_offer d a) = Some ch \<and> length ch \<le> d"
    and "acked (tx_offer d a) = acked a" "tries (tx_offer d a) = tries a"
      "outcome (tx_offer d a) = outcome a"
proof -
  have "acked (tx_offer d a) @ outstanding (tx_offer d a) @ chunks d (unsent (tx_offer d a)) = chunks d contents \<and>
    (current (tx_offer d a) = Some [] \<longrightarrow> unsent (tx_offer d a) = []) \<and>
    (\<exists>ch. current (tx_offer d a) = Some ch \<and> length ch \<le> d)"
  proof (cases "current a")
    case None
    with assms show ?thesis
      by (cases "unsent a = []") (auto simp: tx_spec_inv_def tx_offer_def outstanding_def chunks_next)
  next
    case (Some ch)
    with assms show ?thesis by (auto simp: tx_spec_inv_def tx_offer_def outstanding_def)
  qed
  then show "acked (tx_offer d a) @ outstanding (tx_offer d a) @ chunks d (unsent (tx_offer d a)) = chunks d contents"
    "current (tx_offer d a) = Some [] \<longrightarrow> unsent (tx_offer d a) = []"
    "\<exists>ch. current (tx_offer d a) = Some ch \<and> length ch \<le> d" by blast+
qed (auto simp: tx_offer_def split: option.splits)

lemma tx_spec_step_inv:
  assumes "tx_spec_step wire d a r a'" and "tx_spec_inv d contents a" and "0 < d"
  shows "tx_spec_inv d contents a'"
  using assms(1)
proof cases
  case (ack ch)
  with tx_offer_inv [OF assms(2,3)] show ?thesis
    by (auto simp: tx_spec_inv_def outstanding_def)
next
  case ack_end
  with tx_offer_inv [OF assms(2,3)] show ?thesis
    by (auto simp: tx_spec_inv_def outstanding_def)
next
  case again
  with tx_offer_inv [OF assms(2,3)] show ?thesis
    by (auto simp: tx_spec_inv_def outstanding_def)
next
  case give_up
  with tx_offer_inv [OF assms(2,3)] show ?thesis
    by (auto simp: tx_spec_inv_def outstanding_def)
qed

lemma tx_spec_run_inv:
  "tx_spec_run wire d contents rs a \<Longrightarrow> 0 < d \<Longrightarrow> tx_spec_inv d contents a"
proof (induction rule: tx_spec_run.induct)
  case start
  show ?case by (simp add: tx_spec_inv_def tx_spec_start_def outstanding_def)
next
  case (step rs a r a')
  then show ?case by (blast intro: tx_spec_step_inv)
qed

text \<open>
  The rounds that were answered with an ACK are those of the chunks acknowledged, numbered from 1,
  and at the end the one of the EOT.
\<close>

fun numbered :: "(u8 \<Rightarrow> u8 list \<Rightarrow> u8 list) \<Rightarrow> u8 \<Rightarrow> u8 list list \<Rightarrow> u8 list list" where
  "numbered wire n [] = []"
| "numbered wire n (ch # chs) = wire n ch # numbered wire (n + 1) chs"

lemma numbered_snoc:
  "numbered wire n (chs @ [ch]) = numbered wire n chs @ [wire (word_of_nat (length chs) + n) ch]"
  by (induction chs arbitrary: n) (simp_all add: algebra_simps)

definition acked_frames :: "tx_round list \<Rightarrow> u8 list list" where
  "acked_frames rs = map fst (filter (\<lambda>(frame, answer). answer = Some ACK) rs)"

lemma acked_frames_snoc:
  "acked_frames (rs @ [(frame, answer)]) = acked_frames rs @ (if answer = Some ACK then [frame] else [])"
  by (simp add: acked_frames_def)

lemma tx_spec_run_acked:
  "tx_spec_run wire d contents rs a \<Longrightarrow> acked_frames rs = numbered wire 1 (acked a) @
    (if outcome a = Sent then [wire (word_of_nat (length (acked a)) + 1) []] else [])"
proof (induction rule: tx_spec_run.induct)
  case start
  show ?case by (simp add: acked_frames_def tx_spec_start_def)
next
  case (step rs a r a')
  have keep: "acked (tx_offer d a) = acked a" "outcome (tx_offer d a) = outcome a"
    by (simp_all add: tx_offer_def split: option.splits)
  from step(2) show ?case
    by cases (use step.IH keep in \<open>auto simp: acked_frames_snoc numbered_snoc\<close>)
qed

lemma tx_spec_gave_up:
  "tx_spec_run wire d contents rs a \<Longrightarrow> outcome a = Gave_up \<Longrightarrow> \<exists>round \<in> set rs. snd round \<noteq> Some ACK"
proof (induction rule: tx_spec_run.induct)
  case start
  then show ?case by (simp add: tx_spec_start_def)
next
  case (step rs a r a')
  from step(2) show ?case
    by cases (use step.prems in \<open>auto simp: tx_offer_def split: option.splits\<close>)
qed

text \<open>A transfer that ends well has delivered every chunk of the file, in order.\<close>

lemma tx_spec_sent:
  "tx_spec_run wire d contents rs a \<Longrightarrow> 0 < d \<Longrightarrow> outcome a = Sent \<Longrightarrow> acked a = chunks d contents"
  using tx_spec_run_inv [of wire d contents rs a] by (auto simp: tx_spec_inv_def outstanding_def)

text \<open>Every step that does not end the transfer acknowledges a chunk or uses up a try.\<close>

lemma tx_spec_rank:
  assumes "tx_spec_step wire d a r a'" and "tx_spec_inv d contents a" and "0 < d" and "outcome a' = Sending"
  shows "(length (chunks d contents) - length (acked a')) * 11 + (10 - tries a')
    < (length (chunks d contents) - length (acked a)) * 11 + (10 - tries a)"
proof -
  note offer = tx_offer_inv [OF assms(2,3)]
  from assms(1) show ?thesis
  proof cases
    case (ack ch)
    have "length (acked a) + length (outstanding (tx_offer d a)) \<le> length (chunks d contents)"
      using arg_cong [OF offer(1), of length] offer(4) by simp
    with ack have "length (acked a) < length (chunks d contents)" by (simp add: outstanding_def)
    with ack show ?thesis by simp
  next
    case again
    with assms(2) offer show ?thesis by (simp add: tx_spec_inv_def)
  qed (use assms(4) in simp_all)
qed

section \<open>The code refines the abstract sender\<close>

definition tx_wire :: "bool \<Rightarrow> crc16_context \<Rightarrow> u8 \<Rightarrow> u8 list \<Rightarrow> u8 list" where
  "tx_wire with_crc ctx n ch = (if ch = [] then [EOT] else tx_frame with_crc ctx n ch)"

text \<open>The bytes on the wire for a chunk in a context.\<close>

abbreviation wire_of :: "'w modem_context \<Rightarrow> u8 \<Rightarrow> u8 list \<Rightarrow> u8 list" where
  "wire_of c n ch \<equiv> tx_wire (snd (tx_block_mode c)) (crc16 c) n ch"

text \<open>The line buffer the sender needs: the longest block it may build.\<close>

definition tx_line_need :: "'w modem_context \<Rightarrow> nat" where
  "tx_line_need c =
     (case tx_block_mode c of (d, with_crc) \<Rightarrow> unat d + (if with_crc then 5 else 4))"

definition tx_ready :: "'w modem_context \<Rightarrow> bool" where
  "tx_ready c \<longleftrightarrow>
     ram_wf (ramfile c) \<and> tx_line_need c \<le> length (line_buffer (blk_buffer c)) \<and> putchar_cb c \<noteq> None"

lemma tx_mode_cases: "fst (tx_block_mode c) = 128 \<or> fst (tx_block_mode c) = 1024"
  by (simp add: tx_block_mode_def split: lmodem_protocol.splits lxmodem_opts.splits)

lemma tx_mode_same_setup: "same_setup c c' \<Longrightarrow> tx_block_mode c' = tx_block_mode c"
  by (cases "protocol c"; cases "opts c") (simp_all add: same_setup_def tx_block_mode_def)

lemma tx_mode_world [simp]: "tx_block_mode (c\<lparr>world := w\<rparr>) = tx_block_mode c"
  by (rule tx_mode_same_setup) simp

lemma tx_ready_world [simp]: "tx_ready (c\<lparr>world := w\<rparr>) = tx_ready c"
  by (simp add: tx_ready_def tx_line_need_def)

lemma tx_ready_same_setup:
  "tx_ready c \<Longrightarrow> same_setup c c' \<Longrightarrow> ram_wf (ramfile c') \<Longrightarrow> tx_ready c'"
  using tx_mode_same_setup [of c c'] by (auto simp: tx_ready_def tx_line_need_def same_setup_def)

lemma length_wire_of:
  assumes "tx_ready c" and "length ch \<le> unat (fst (tx_block_mode c))"
  shows "length (wire_of c n ch) \<le> length (line_buffer (blk_buffer c))" "0 < length (wire_of c n ch)"
    "length (wire_of c n ch) < 2 ^ 32"
proof -
  have "length ch \<le> 1024" using assms(2) tx_mode_cases [of c] by auto
  moreover have "block_size ch \<le> unat (fst (tx_block_mode c))"
    using assms(2) tx_mode_cases [of c] by (auto simp: block_size_def)
  ultimately show "length (wire_of c n ch) \<le> length (line_buffer (blk_buffer c))"
    "0 < length (wire_of c n ch)" "length (wire_of c n ch) < 2 ^ 32"
    using assms(1) tx_mode_cases [of c]
    by (auto simp: tx_wire_def length_tx_frame tx_ready_def tx_line_need_def split: prod.splits if_splits)
qed

text \<open>The outstanding chunk is in the line buffer, ready to be sent again.\<close>

definition tx_holds :: "tx_locals \<Rightarrow> 'w modem_context \<Rightarrow> u8 list \<Rightarrow> bool" where
  "tx_holds l c ch \<longleftrightarrow>
     (isLastBlock l \<longleftrightarrow> ch = []) \<and>
     nbEmitted l = (if ch = [] then 0 else word_of_nat (block_size ch)) \<and>
     take (length (wire_of c (blkNo l) ch)) (line_buffer (blk_buffer c)) = wire_of c (blkNo l) ch \<and>
     line_current_size (blk_buffer c) = word_of_nat (length (wire_of c (blkNo l) ch))"

definition tx_refines :: "tx_spec \<Rightarrow> tx_locals \<Rightarrow> 'w modem_context \<Rightarrow> bool" where
  "tx_refines a l c \<longleftrightarrow>
     ram_unread (ramfile c) = unsent a \<and> retry l = tries a \<and>
     (tx_finished l \<longleftrightarrow> outcome a \<noteq> Sending) \<and>
     (outcome a = Gave_up \<longrightarrow> emittedBytes l = -1) \<and>
     (outcome a \<noteq> Gave_up \<longrightarrow> emittedBytes l = word_of_nat (sum_list (map block_size (acked a)))) \<and>
     (outcome a = Sending \<longrightarrow>
        blkNo l = word_of_nat (length (acked a)) + 1 \<and>
        (\<forall>ch. current a = Some ch \<longrightarrow> tx_holds l c ch))"

lemma tx_refines_world [simp]: "tx_refines a l (c\<lparr>world := w\<rparr>) = tx_refines a l c"
  by (simp add: tx_refines_def tx_holds_def)

lemma handle_answer_refines:
  assumes ref: "tx_refines (tx_offer d a) l c" and run: "outcome a = Sending"
    and cur: "current (tx_offer d a) = Some ch"
  shows "\<exists>a'. tx_spec_step wire d a (wire (word_of_nat (length (acked a)) + 1) ch, answer) a' \<and>
    tx_refines a' (handle_answer answer l) c"
proof -
  have a: "acked (tx_offer d a) = acked a" "tries (tx_offer d a) = tries a" "outcome (tx_offer d a) = Sending"
    using run by (auto simp: tx_offer_def split: option.splits)
  have holds: "tx_holds l c ch" using ref cur a by (simp add: tx_refines_def)
  have retry: "retry l = tries a" using ref a by (simp add: tx_refines_def)
  have go: "\<not> tx_finished l" using ref a by (simp add: tx_refines_def)
  let ?r = "(wire (word_of_nat (length (acked a)) + 1) ch, answer)"
  consider (eot) "answer = Some ACK" "ch = []" | (ack) "answer = Some ACK" "ch \<noteq> []"
    | (fail) "answer \<noteq> Some ACK" "tries a < 9" "answer = None \<or> answer = Some NAK \<or> tries a = 0"
    | (stop) "answer \<noteq> Some ACK" "9 \<le> tries a \<or> answer \<noteq> None \<and> answer \<noteq> Some NAK \<and> 0 < tries a"
    by linarith
  then show ?thesis
  proof cases
    case eot
    let ?a = "(tx_offer d a)\<lparr>current := None, tries := 0, outcome := Sent\<rparr>"
    have "tx_spec_step wire d a ?r ?a"
      using run cur unfolding eot by (intro tx_spec_step.ack_end)
    moreover have "tx_refines ?a (handle_answer answer l) c"
      using ref eot holds a by (auto simp: tx_refines_def handle_answer_def tx_holds_def)
    ultimately show ?thesis by blast
  next
    case ack
    let ?a = "(tx_offer d a)\<lparr>acked := acked a @ [ch], current := None, tries := 0\<rparr>"
    have "tx_spec_step wire d a ?r ?a"
      using run cur ack(2) unfolding ack(1) by (intro tx_spec_step.ack)
    moreover have "tx_refines ?a (handle_answer answer l) c"
      using ref ack holds a by (auto simp: tx_refines_def handle_answer_def tx_holds_def)
    ultimately show ?thesis by blast
  next
    case fail
    let ?a = "(tx_offer d a)\<lparr>tries := tries a + 1\<rparr>"
    have "tx_spec_step wire d a ?r ?a" using run cur fail by (intro tx_spec_step.again)
    moreover have "handle_answer answer l = l\<lparr>retry := retry l + 1\<rparr>"
      using fail retry by (auto simp: handle_answer_def Let_def split: option.splits)
    ultimately show ?thesis
      using ref a by (intro exI [of _ ?a]) (auto simp: tx_refines_def tx_holds_def)
  next
    case stop
    let ?a = "(tx_offer d a)\<lparr>tries := tries a + 1, outcome := Gave_up\<rparr>"
    have "tx_spec_step wire d a ?r ?a" using run cur stop by (intro tx_spec_step.give_up)
    moreover have "handle_answer answer l = l\<lparr>retry := retry l + 1, emittedBytes := -1, tx_finished := True\<rparr>"
      using stop retry by (auto simp: handle_answer_def Let_def split: option.splits)
    ultimately show ?thesis
      using ref a by (intro exI [of _ ?a]) (auto simp: tx_refines_def)
  qed
qed

lemma send_data_block_refines:
  assumes ready: "tx_ready c" and p: "putchar_cb c = Some p" and ref: "tx_refines a l c"
    and run: "outcome a = Sending" and inv: "tx_spec_inv (unat (fst (tx_block_mode c))) contents a"
  shows "\<exists>l' c' ch. send_data_block l c = Some (l', c') \<and> same_setup c c' \<and> tx_ready c' \<and>
    ram_contents (ramfile c') = ram_contents (ramfile c) \<and>
    tx_refines (tx_offer (unat (fst (tx_block_mode c))) a) l' c' \<and>
    current (tx_offer (unat (fst (tx_block_mode c))) a) = Some ch \<and>
    world c' = p (world c) (wire_of c (word_of_nat (length (acked a)) + 1) ch)"
proof -
  obtain d with_crc where mode: "tx_block_mode c = (d, with_crc)" by (cases "tx_block_mode c")
  have d: "d = 128 \<or> d = 1024" "0 < unat d" using tx_mode_cases [of c] mode by auto
  have wf: "ram_wf (ramfile c)" using ready by (simp add: tx_ready_def)
  have no: "blkNo l = word_of_nat (length (acked a)) + 1" using ref run by (simp add: tx_refines_def)
  have retry: "retry l = 0 \<longleftrightarrow> current a = None"
    using ref run inv by (simp add: tx_refines_def tx_spec_inv_def)
  show ?thesis
  proof (cases "current a")
    case (Some ch)
    then have off: "tx_offer (unat d) a = a" by (simp add: tx_offer_def)
    have "tx_holds l c ch" using ref run Some by (simp add: tx_refines_def)
    then have line: "line_buffer (blk_buffer c) =
        wire_of c (blkNo l) ch @ drop (length (wire_of c (blkNo l) ch)) (line_buffer (blk_buffer c))"
      and cs: "line_current_size (blk_buffer c) = word_of_nat (length (wire_of c (blkNo l) ch))"
      by (metis append_take_drop_id tx_holds_def) (simp add: \<open>tx_holds l c ch\<close> [unfolded tx_holds_def])
    have "length ch \<le> unat (fst (tx_block_mode c))"
      using inv Some by (simp add: tx_spec_inv_def)
    note size = length_wire_of [OF ready this]
    have "unat (line_current_size (blk_buffer c)) = length (wire_of c (blkNo l) ch)"
      unfolding cs by (rule unat_u32_of_nat) (rule size)
    from reemit_returns [OF p line this] show ?thesis
      using Some retry off ref ready no mode
      by (intro exI [of _ l] exI [of _ "c\<lparr>world := p (world c) (wire_of c (blkNo l) ch)\<rparr>"] exI [of _ ch])
        (simp add: send_data_block_def)
  next
    case None
    define ch where "ch = block_bytes d (ram_unread (ramfile c))"
    have un: "unsent a = ram_unread (ramfile c)" using ref by (simp add: tx_refines_def)
    have off: "tx_offer (unat d) a = a\<lparr>current := Some ch, unsent := drop (unat d) (ram_unread (ramfile c))\<rparr>"
      using None by (simp add: tx_offer_def ch_def block_bytes_def un)
    have clen: "length ch \<le> unat (fst (tx_block_mode c))"
      by (simp add: ch_def block_bytes_def mode)
    note size = length_wire_of [OF ready clen, of "blkNo l"]
    have send: "send_data_block l c = do {
        (last, n, c) \<leftarrow> lxmode_build_and_send_one_data_block c (blkNo l) d with_crc;
        Some (l\<lparr>isLastBlock := last, nbEmitted := n\<rparr>, c)}"
      using None retry mode by (simp add: send_data_block_def)
    show ?thesis
    proof (cases "ch = []")
      case True
      then have empty: "ram_unread (ramfile c) = []" using d by (simp add: ch_def block_bytes_def)
      have "line_buffer (blk_buffer c) \<noteq> []" using size(1,2) by auto
      from send_eot_returns [OF wf p empty this, of "blkNo l" d with_crc]
      obtain c' where build: "lxmode_build_and_send_one_data_block c (blkNo l) d with_crc = Some (True, 0, c')"
        and c': "c' = c\<lparr>world := p (world c) [EOT], blk_buffer := (blk_buffer c)
          \<lparr>line_buffer := EOT # drop 1 (line_buffer (blk_buffer c)), line_current_size := 1\<rparr>\<rparr>"
        by blast
      have same: "same_setup c c'"
        using \<open>line_buffer (blk_buffer c) \<noteq> []\<close> by (cases "line_buffer (blk_buffer c)") (auto simp: c' same_setup_def)
      have "tx_ready c'" using tx_ready_same_setup [OF ready same] wf by (simp add: c')
      moreover have "tx_refines (tx_offer (unat d) a) (l\<lparr>isLastBlock := True, nbEmitted := 0\<rparr>) c'"
        using ref run True empty off by (simp add: tx_refines_def tx_holds_def tx_wire_def c')
      ultimately show ?thesis
        using build send same off True no mode
        by (intro exI [of _ "l\<lparr>isLastBlock := True, nbEmitted := 0\<rparr>"] exI [of _ c'] exI [of _ ch])
          (simp add: tx_wire_def, simp add: c')
    next
      case False
      have wire: "wire_of c (blkNo l) ch = tx_frame with_crc (crc16 c) (blkNo l) ch"
        using False mode by (simp add: tx_wire_def)
      from send_block_returns [OF wf p d(1) ch_def False refl, of with_crc "blkNo l"] size(1) wire
      obtain rf c' where build: "lxmode_build_and_send_one_data_block c (blkNo l) d with_crc =
          Some (False, word_of_nat (block_size ch), c')"
        and c': "c' = c\<lparr>ramfile := rf, world := p (world c) (wire_of c (blkNo l) ch),
          blk_buffer := (blk_buffer c)
            \<lparr>line_buffer := wire_of c (blkNo l) ch @
                drop (length (wire_of c (blkNo l) ch)) (line_buffer (blk_buffer c)),
              line_current_size := word_of_nat (length (wire_of c (blkNo l) ch))\<rparr>\<rparr>"
        and rf: "ram_wf rf" "ram_unread rf = drop (length ch) (ram_unread (ramfile c))"
          "ram_contents rf = ram_contents (ramfile c)"
        by auto
      have same: "same_setup c c'" using size(1) by (simp add: c' same_setup_def)
      have keep: "wire_of c' n x = wire_of c n x" for n x
        using tx_mode_same_setup [OF same] by (simp add: c')
      have "drop (length ch) (ram_unread (ramfile c)) = drop (unat d) (ram_unread (ramfile c))"
        by (simp add: ch_def block_bytes_def min_def)
      then have "tx_refines (tx_offer (unat d) a) (l\<lparr>isLastBlock := False, nbEmitted := word_of_nat (block_size ch)\<rparr>) c'"
        using ref run False off rf(2) by (simp add: tx_refines_def tx_holds_def keep) (simp add: c')
      moreover have "tx_ready c'" using tx_ready_same_setup [OF ready same] rf(1) by (simp add: c')
      ultimately show ?thesis
        using build send same off no mode rf(3)
        by (intro exI [of _ "l\<lparr>isLastBlock := False, nbEmitted := word_of_nat (block_size ch)\<rparr>"]
            exI [of _ c'] exI [of _ ch]) (simp, simp add: c')
    qed
  qed
qed

lemma chunks_set:
  "ch \<in> set (chunks d xs) \<Longrightarrow> length ch \<le> d \<and> ch \<noteq> []"
proof (induction d xs rule: chunks.induct)
  case (1 d xs)
  then show ?case
    by (cases "xs = [] \<or> d = 0") (auto simp: chunks.simps [of d xs])
qed

section \<open>The other side of the port\<close>

text \<open>
  What the port makes of the frames it is sent, told without the code: after each frame come up to
  ten reads of a byte, and the first that succeeds is the answer. The answers follow from the frames
  and the state of the port.
\<close>

fun read_answer :: "'w getchar_fun \<Rightarrow> nat \<Rightarrow> 'w \<Rightarrow> u8 option \<times> 'w" where
  "read_answer getc 0 w = (None, w)"
| "read_answer getc (Suc k) w =
     (case getc w 1 of
        None \<Rightarrow> (None, w)
      | Some ((ok, data), w) \<Rightarrow> if ok then (Some (hd data), w) else read_answer getc k w)"

fun exchange ::
  "'w putchar_fun \<Rightarrow> 'w getchar_fun \<Rightarrow> 'w \<Rightarrow> u8 list list \<Rightarrow> u8 option list \<times> 'w" where
  "exchange p getc w [] = ([], w)"
| "exchange p getc w (frame # frames) =
     (let (answer, w) = read_answer getc 10 (p w frame);
          (answers, w) = exchange p getc w frames
      in (answer # answers, w))"

lemma exchange_snoc:
  "exchange p getc w frames = (answers, w1) \<Longrightarrow> read_answer getc 10 (p w1 frame) = (answer, w2) \<Longrightarrow>
    exchange p getc w (frames @ [frame]) = (answers @ [answer], w2)"
  by (induction frames arbitrary: w answers) (auto split: prod.splits)

section \<open>The whole emission\<close>

context serial_line
begin

lemma wait_char_answer:
  "getchar_cb c = Some getc \<Longrightarrow> read_answer getc (10 - t) (world c) = (answer, w) \<Longrightarrow>
    wait_char c t = Some (answer, c\<lparr>world := w\<rparr>)"
proof (induction c t rule: wait_char.induct)
  case (1 c t)
  show ?case
  proof (cases "t < 10")
    case True
    obtain ok data w1 where got: "getc (world c) 1 = Some ((ok, data), w1)"
      "lmodem_getchar c 1 = Some (ok, data, c\<lparr>world := w1\<rparr>)" "ok \<longrightarrow> length data = 1"
      using getchar_returns [OF "1.prems"(1), of 1] by auto
    have k: "10 - t = Suc (10 - (t + 1))" using True by simp
    show ?thesis
    proof (cases ok)
      case False
      with got have byte: "lmodem_getchar_byte c = Some (None, c\<lparr>world := w1\<rparr>)"
        by (simp add: lmodem_getchar_byte_def)
      have "read_answer getc (10 - (t + 1)) (world (c\<lparr>world := w1\<rparr>)) = (answer, w)"
        using "1.prems"(2) False got(1) unfolding k by simp
      with "1.prems"(1) "1.IH" [OF True byte refl refl]
      have "wait_char (c\<lparr>world := w1\<rparr>) (t + 1) = Some (answer, c\<lparr>world := w1\<rparr>\<lparr>world := w\<rparr>)" by simp
      with byte True show ?thesis by (simp add: wait_char.simps [of c t])
    next
      case True
      with got obtain x where x: "data = [x]" by (auto simp: length_Suc_conv)
      with True got "1.prems"(2) have "answer = Some x" "w = w1" unfolding k by simp_all
      with True x got(2) \<open>t < 10\<close> show ?thesis
        by (simp add: wait_char.simps [of c t] lmodem_getchar_byte_def)
    qed
  next
    case False
    with "1.prems" show ?thesis by (simp add: wait_char.simps)
  qed
qed

lemma wait_char_returns:
  assumes "getchar_cb c = Some getc"
  shows "\<exists>ans w. wait_char c t = Some (ans, c\<lparr>world := w\<rparr>)"
  using wait_char_answer [OF assms] by (cases "read_answer getc (10 - t) (world c)") blast

lemma tx_step_refines:
  assumes get: "getchar_cb c = Some getc" and p: "putchar_cb c = Some p" and ready: "tx_ready c"
    and ref: "tx_refines a l c" and run: "outcome a = Sending"
    and d: "unat (fst (tx_block_mode c)) = d" and inv: "tx_spec_inv d contents a"
  shows "\<exists>l' c' a' frame answer. send_data_blocks_step l c = Some (l', c') \<and> same_setup c c' \<and> tx_ready c' \<and>
    ram_contents (ramfile c') = ram_contents (ramfile c) \<and>
    tx_spec_step (wire_of c) d a (frame, answer) a' \<and> tx_refines a' l' c' \<and>
    read_answer getc 10 (p (world c) frame) = (answer, world c')"
proof -
  obtain l1 c1 ch where send: "send_data_block l c = Some (l1, c1)"
    and c1: "same_setup c c1" "tx_ready c1" "ram_contents (ramfile c1) = ram_contents (ramfile c)"
    and ref1: "tx_refines (tx_offer d a) l1 c1" and cur: "current (tx_offer d a) = Some ch"
    and w1: "world c1 = p (world c) (wire_of c (word_of_nat (length (acked a)) + 1) ch)"
    using send_data_block_refines [OF ready p ref run, of contents] inv unfolding d by blast
  obtain ans w where ans: "read_answer getc 10 (world c1) = (ans, w)"
    by (cases "read_answer getc 10 (world c1)")
  have "getchar_cb c1 = Some getc" using get c1(1) by (simp add: same_setup_frame)
  then have wait: "wait_char c1 0 = Some (ans, c1\<lparr>world := w\<rparr>)"
    using ans by (intro wait_char_answer) simp_all
  have "send_data_blocks_step l c = Some (handle_answer ans l1, c1\<lparr>world := w\<rparr>)"
    using send wait by (simp add: send_data_blocks_step_def)
  moreover obtain a' where
    "tx_spec_step (wire_of c) d a (wire_of c (word_of_nat (length (acked a)) + 1) ch, ans) a'"
    "tx_refines a' (handle_answer ans l1) c1"
    using handle_answer_refines [OF ref1 run cur] by blast
  ultimately show ?thesis using c1 ans w1
    by (intro exI [of _ "handle_answer ans l1"] exI [of _ "c1\<lparr>world := w\<rparr>"] exI [of _ a']
        exI [of _ "wire_of c (word_of_nat (length (acked a)) + 1) ch"] exI [of _ ans]) simp
qed

lemma tx_loop_returns:
  "getchar_cb c = Some getc \<Longrightarrow> putchar_cb c = Some p \<Longrightarrow> tx_ready c \<Longrightarrow>
    unat (fst (tx_block_mode c)) = d \<Longrightarrow> wire_of c = wire \<Longrightarrow> tx_refines a l c \<Longrightarrow>
    tx_spec_run wire d contents rs a \<Longrightarrow> exchange p getc w (map fst rs) = (map snd rs, world c) \<Longrightarrow>
    \<exists>l' c' a' rs'. send_data_blocks_loop l c = Some (l', c') \<and> same_setup c c' \<and> tx_ready c' \<and>
      ram_contents (ramfile c') = ram_contents (ramfile c) \<and>
      tx_spec_run wire d contents rs' a' \<and> outcome a' \<noteq> Sending \<and> tx_refines a' l' c' \<and>
      exchange p getc w (map fst rs') = (map snd rs', world c')"
proof (induction "(length (chunks d contents) - length (acked a)) * 11 + (10 - tries a)"
    arbitrary: l c a rs rule: less_induct)
  case less
  have d: "0 < d" using tx_mode_cases [of c] less.prems(4) by auto
  note inv = tx_spec_run_inv [OF less.prems(7) d]
  show ?case
  proof (cases "tx_finished l")
    case True
    with less.prems show ?thesis
      by (intro exI [of _ l] exI [of _ c] exI [of _ a] exI [of _ rs])
        (simp add: send_data_blocks_loop.simps tx_refines_def)
  next
    case False
    then have run: "outcome a = Sending" using less.prems(6) by (simp add: tx_refines_def)
    from tx_step_refines [OF less.prems(1-3,6) run less.prems(4) inv] less.prems(5)
    obtain l1 c1 a1 frame answer where
      step: "send_data_blocks_step l c = Some (l1, c1)" and same: "same_setup c c1"
      and c1: "tx_ready c1" "ram_contents (ramfile c1) = ram_contents (ramfile c)"
      and a1: "tx_spec_step wire d a (frame, answer) a1" "tx_refines a1 l1 c1"
      and io: "read_answer getc 10 (p (world c) frame) = (answer, world c1)" by blast
    have loop: "send_data_blocks_loop l c = send_data_blocks_loop l1 c1"
      using False step by (simp add: send_data_blocks_loop.simps [of l c])
    let ?rs = "rs @ [(frame, answer)]"
    have reach: "tx_spec_run wire d contents ?rs a1"
      using less.prems(7) a1(1) by (rule tx_spec_run.step)
    have ex: "exchange p getc w (map fst ?rs) = (map snd ?rs, world c1)"
      using exchange_snoc [OF less.prems(8) io] by simp
    show ?thesis
    proof (cases "outcome a1 = Sending")
      case True
      have "getchar_cb c1 = Some getc" "putchar_cb c1 = Some p" "unat (fst (tx_block_mode c1)) = d" "wire_of c1 = wire"
        using same less.prems(1,2,4,5) tx_mode_same_setup [OF same] by (simp_all add: same_setup_frame)
      from less.hyps [OF tx_spec_rank [OF a1(1) inv d True] this(1,2) c1(1) this(3,4) a1(2) reach ex]
      show ?thesis using loop same_setup_trans [OF same] c1(2) by metis
    next
      case False
      then have "send_data_blocks_loop l1 c1 = Some (l1, c1)"
        using a1(2) by (simp add: send_data_blocks_loop.simps [of l1] tx_refines_def)
      with loop same c1 reach False a1(2) ex show ?thesis
        by (intro exI [of _ l1] exI [of _ c1] exI [of _ a1] exI [of _ ?rs]) simp
    qed
  qed
qed

text \<open>The result of a transfer: all chunks acknowledged, and their padded size, or \<open>-1\<close>.\<close>

lemma send_data_blocks_returns:
  assumes get: "getchar_cb c = Some getc" and p: "putchar_cb c = Some p" and ready: "tx_ready c"
    and d: "d = unat (fst (tx_block_mode c))"
  shows "\<exists>r c' a rs. lxmode_send_data_blocks c = Some (r, c') \<and> same_setup c c' \<and> tx_ready c' \<and>
    ram_contents (ramfile c') = ram_contents (ramfile c) \<and>
    tx_spec_run (wire_of c) d (ram_unread (ramfile c)) rs a \<and> outcome a \<noteq> Sending \<and>
    exchange p getc (world c) (map fst rs) = (map snd rs, world c') \<and>
    r = (if outcome a = Sent then word_of_nat (sum_list (map block_size (acked a))) else -1) \<and>
    ram_unread (ramfile c') = unsent a"
proof -
  have "tx_refines (tx_spec_start (ram_unread (ramfile c))) tx_start c"
    by (simp add: tx_refines_def tx_spec_start_def tx_start_def)
  from tx_loop_returns [OF get p ready d [symmetric] refl this tx_spec_run.start, of "world c"]
  obtain l' c' a rs where "send_data_blocks_loop tx_start c = Some (l', c')" "same_setup c c'" "tx_ready c'"
    "ram_contents (ramfile c') = ram_contents (ramfile c)"
    "tx_spec_run (wire_of c) d (ram_unread (ramfile c)) rs a" "outcome a \<noteq> Sending" "tx_refines a l' c'"
    "exchange p getc (world c) (map fst rs) = (map snd rs, world c')"
    by auto
  then show ?thesis
    by (intro exI [of _ "emittedBytes l'"] exI [of _ c'] exI [of _ a] exI [of _ rs])
      (cases "outcome a"; simp add: lxmode_send_data_blocks_def tx_refines_def)
qed

lemma emit_returns:
  assumes get: "getchar_cb c = Some getc" and ready: "tx_ready c"
    and d: "d = unat (fst (tx_block_mode c))"
  shows "\<exists>r c'. lxmodem_emit c = Some (r, c') \<and> same_setup c c' \<and> tx_ready c' \<and>
    ram_contents (ramfile c') = ram_contents (ramfile c) \<and>
    (r = -1 \<or> ramfile c' = ramfile c \<and> r = 0 \<or>
     ram_unread (ramfile c') = [] \<and>
     r = word_of_nat (sum_list (map block_size (chunks d (ram_unread (ramfile c))))))"
proof -
  obtain p where p: "putchar_cb c = Some p" using ready by (auto simp: tx_ready_def)
  obtain ans w where wait: "wait_char c 0 = Some (ans, c\<lparr>world := w\<rparr>)"
    using wait_char_returns [OF get] by blast
  let ?c = "c\<lparr>world := w\<rparr>"
  have d0: "0 < d" using tx_mode_cases [of c] d by auto
  show ?thesis
  proof (cases ans)
    case None
    with wait ready show ?thesis
      by (intro exI [of _ 0] exI [of _ ?c]) (simp add: lxmodem_emit_def)
  next
    case (Some x)
    show ?thesis
    proof (cases "lxmodem_decode_preambule ?c x")
      case False
      with wait ready p Some show ?thesis
        by (intro exI [of _ "-1"]) (simp add: lxmodem_emit_def cancel_returns)
    next
      case True
      have "getchar_cb ?c = Some getc" "putchar_cb ?c = Some p" "tx_ready ?c" "d = unat (fst (tx_block_mode ?c))"
        using get p ready d by simp_all
      from send_data_blocks_returns [OF this] obtain r c' a rs where
        r: "lxmode_send_data_blocks ?c = Some (r, c')" and c': "same_setup ?c c'" "tx_ready c'"
        "ram_contents (ramfile c') = ram_contents (ramfile c)"
        and a: "tx_spec_run (wire_of c) d (ram_unread (ramfile c)) rs a" "outcome a \<noteq> Sending"
        "r = (if outcome a = Sent then word_of_nat (sum_list (map block_size (acked a))) else -1)"
        "ram_unread (ramfile c') = unsent a" by auto
      have "same_setup c c'" using c'(1) by (simp add: same_setup_def)
      moreover have "acked a = chunks d (ram_unread (ramfile c))" "unsent a = []" if "outcome a = Sent"
        using tx_spec_sent [OF a(1) d0 that] tx_spec_run_inv [OF a(1) d0] that
        by (simp_all add: tx_spec_inv_def)
      ultimately show ?thesis using wait Some True r c' a
        by (intro exI [of _ r] exI [of _ c']) (auto simp: lxmodem_emit_def)
    qed
  qed
qed

end

section \<open>Properties\<close>

text \<open>
  C13: One data block on the wire. With bytes left in a well-formed file and a line buffer that
  holds a block, \<open>lxmode_build_and_send_one_data_block\<close> sends exactly one frame: SOH and 128 bytes,
  or STX and 1024 if more than 128 are left to send, the number and its complement, the next
  bytes of the file padded with SUB, and the checksum or CRC. It takes these bytes, and only
  them, from the file and keeps the frame in the line buffer.
\<close>

theorem data_block_sends_frame:
  assumes "ram_wf (ramfile c)" and "putchar_cb c = Some p" and "d = 128 \<or> d = 1024"
    and "ch = take (unat d) (ram_unread (ramfile c))" and "ch \<noteq> []"
    and "length (tx_frame with_crc (crc16 c) n ch) \<le> length (line_buffer (blk_buffer c))"
  shows "\<exists>c'. lxmode_build_and_send_one_data_block c n d with_crc =
      Some (False, word_of_nat (block_size ch), c') \<and>
    world c' = p (world c) (tx_frame with_crc (crc16 c) n ch) \<and>
    ram_wf (ramfile c') \<and> ram_unread (ramfile c') = drop (length ch) (ram_unread (ramfile c)) \<and>
    ram_contents (ramfile c') = ram_contents (ramfile c) \<and>
    take (length (tx_frame with_crc (crc16 c) n ch)) (line_buffer (blk_buffer c')) =
      tx_frame with_crc (crc16 c) n ch \<and>
    line_current_size (blk_buffer c') = word_of_nat (length (tx_frame with_crc (crc16 c) n ch))"
  using send_block_returns [OF assms(1-3) _ assms(5) refl assms(6)] assms(4)
  by (auto simp: block_bytes_def)

theorem data_block_sends_frame_witness:
  "\<exists>c'. lxmode_build_and_send_one_data_block ((memset_context (unset_context ()))\<lparr>putchar_cb := Some (\<lambda>w data. w),
      ramfile := \<lparr>ram_buffer = [7, 8, 9], ram_read_offset = 1, ram_write_offset = 3, ram_max_size = 3\<rparr>,
      blk_buffer := \<lparr>line_buffer = replicate 132 0, line_current_size = 0, line_max_size = 132\<rparr>\<rparr>)
      1 128 False = Some (False, 128, c') \<and> ram_unread (ramfile c') = []"
  using data_block_sends_frame [of "(memset_context (unset_context ()))\<lparr>putchar_cb := Some (\<lambda>w data. w),
      ramfile := \<lparr>ram_buffer = [7, 8, 9], ram_read_offset = 1, ram_write_offset = 3, ram_max_size = 3\<rparr>,
      blk_buffer := \<lparr>line_buffer = replicate 132 0, line_current_size = 0, line_max_size = 132\<rparr>\<rparr>"
      "\<lambda>w data. w" 128 "[8, 9]" False 1]
  by (auto simp: ram_defs length_tx_frame block_size_def)

text \<open>
  A re-emission repeats the previous block byte for byte: after a data block or an EOT,
  \<open>lxmode_reemit_previous_block\<close> sends what was sent, and changes nothing but the world.
\<close>

lemma reemit_repeats_block:
  assumes "ram_wf (ramfile c)" and "putchar_cb c = Some p" and "d = 128 \<or> d = 1024"
    and "unat d + 5 \<le> length (line_buffer (blk_buffer c))"
  shows "\<exists>eot k c' frame. lxmode_build_and_send_one_data_block c n d with_crc = Some (eot, k, c') \<and>
    world c' = p (world c) frame \<and>
    lxmode_reemit_previous_block c' = Some (c'\<lparr>world := p (world c') frame\<rparr>)"
proof (cases "ram_unread (ramfile c) = []")
  case True
  have "line_buffer (blk_buffer c) \<noteq> []" using assms(4) by auto
  from send_eot_returns [OF assms(1,2) True this] show ?thesis
    using assms(2)
    by (intro exI [of _ True] exI [of _ 0] exI [of _ "c\<lparr>world := p (world c) [EOT],
        blk_buffer := (blk_buffer c)\<lparr>line_buffer := EOT # drop 1 (line_buffer (blk_buffer c)),
          line_current_size := 1\<rparr>\<rparr>"] exI [of _ "[EOT]"])
      (simp add: reemit_returns [where frame = "[EOT]"])
next
  case False
  let ?ch = "block_bytes d (ram_unread (ramfile c))"
  have ch: "?ch \<noteq> []" "length ?ch \<le> unat d" "block_size ?ch \<le> unat d"
    using False assms(3) by (auto simp: block_bytes_def block_size_def)
  let ?f = "tx_frame with_crc (crc16 c) n ?ch"
  have len: "length ?f \<le> length (line_buffer (blk_buffer c))" "length ?f < 2 ^ 32"
    using ch assms(3,4) by (auto simp: length_tx_frame)
  from send_block_returns [OF assms(1-3) refl ch(1) refl len(1)] obtain rf where
    "lxmode_build_and_send_one_data_block c n d with_crc =
      Some (False, word_of_nat (block_size ?ch), c\<lparr>ramfile := rf, world := p (world c) ?f,
        blk_buffer := (blk_buffer c)\<lparr>line_buffer := ?f @ drop (length ?f) (line_buffer (blk_buffer c)),
          line_current_size := word_of_nat (length ?f)\<rparr>\<rparr>)" by blast
  with assms(2) unat_u32_of_nat [OF len(2)] show ?thesis
    by (intro exI [of _ False] exI [of _ "word_of_nat (block_size ?ch)"]
        exI [of _ "c\<lparr>ramfile := rf, world := p (world c) ?f,
        blk_buffer := (blk_buffer c)\<lparr>line_buffer := ?f @ drop (length ?f) (line_buffer (blk_buffer c)),
          line_current_size := word_of_nat (length ?f)\<rparr>\<rparr>"] exI [of _ ?f])
      (simp add: reemit_returns [where frame = ?f])
qed

text \<open>
  C15: Over any serial port \<open>lxmodem_emit\<close> ends, stays inside its buffers and leaves the file's
  contents and the set-up alone. Its result is \<open>-1\<close>; or 0, with nothing read from the file; or, with
  the whole file read, the padded size of all its blocks.
\<close>

theorem lxmodem_emit_ends:
  assumes "getchar_cb c = Some (serial_getchar rd)" and "tx_ready c"
    and "d = unat (fst (tx_block_mode c))"
  shows "\<exists>r c'. lxmodem_emit c = Some (r, c') \<and> same_setup c c' \<and> tx_ready c' \<and>
    ram_contents (ramfile c') = ram_contents (ramfile c) \<and>
    (r = -1 \<or> ramfile c' = ramfile c \<and> r = 0 \<or>
     ram_unread (ramfile c') = [] \<and>
     r = word_of_nat (sum_list (map block_size (chunks d (ram_unread (ramfile c))))))"
  using assms by (rule tty.emit_returns)

theorem lxmodem_emit_ends_witness:
  "\<exists>r c'. lxmodem_emit ((memset_context (unset_context ()))\<lparr>getchar_cb := Some (serial_getchar (\<lambda>w n. (None, w))),
      putchar_cb := Some (\<lambda>w data. w), blk_buffer :=
        \<lparr>line_buffer = replicate 132 0, line_current_size = 0, line_max_size = 132\<rparr>\<rparr>) = Some (r, c')"
  using lxmodem_emit_ends [of "(memset_context (unset_context ()))\<lparr>getchar_cb := Some (serial_getchar (\<lambda>w n. (None, w))),
      putchar_cb := Some (\<lambda>w data. w), blk_buffer :=
        \<lparr>line_buffer = replicate 132 0, line_current_size = 0, line_max_size = 132\<rparr>\<rparr>" "\<lambda>w n. (None, w)" 128]
  by (fastforce simp: tx_ready_def tx_line_need_def tx_block_mode_def memset_context_def ram_wf_def)

text \<open>
  C6: The emission loop \<open>lxmode_send_data_blocks\<close> is the abstract sender at work on the port. Over every
  serial port it ends after some rounds \<open>rs\<close>: the frames of these rounds, sent to the port one after
  the other, bring exactly their answers, each by up to ten reads, and leave the port as the code
  leaves it; the abstract sender takes the same frames and answers from its start to an end. So
  only an ACK moves the sender on: the frames that were acknowledged are the chunks of the unread
  file, in order, numbered from 1, a first part of them when it gives up (result \<open>-1\<close>); else all
  of them and then the EOT, each once, and the result is the padded size of the file.
\<close>

theorem send_data_blocks_delivers:
  assumes "getchar_cb c = Some (serial_getchar rd)" and "putchar_cb c = Some p" and "tx_ready c"
    and "d = unat (fst (tx_block_mode c))"
  shows "\<exists>r c' rs a. lxmode_send_data_blocks c = Some (r, c') \<and> same_setup c c' \<and>
    exchange p (serial_getchar rd) (world c) (map fst rs) = (map snd rs, world c') \<and>
    tx_spec_run (wire_of c) d (ram_unread (ramfile c)) rs a \<and> outcome a \<noteq> Sending \<and>
    (if outcome a = Sent
     then acked_frames rs = numbered (wire_of c) 1 (chunks d (ram_unread (ramfile c))) @ [[EOT]] \<and>
       ram_unread (ramfile c') = [] \<and>
       r = word_of_nat (sum_list (map block_size (chunks d (ram_unread (ramfile c)))))
     else r = -1 \<and> (\<exists>chs. chunks d (ram_unread (ramfile c)) = acked a @ chs \<and>
       acked_frames rs = numbered (wire_of c) 1 (acked a)))"
proof -
  have d: "0 < d" using tx_mode_cases [of c] assms(4) by auto
  from tty.send_data_blocks_returns [OF assms] obtain r c' a rs where
    run: "lxmode_send_data_blocks c = Some (r, c')" "same_setup c c'"
      "exchange p (serial_getchar rd) (world c) (map fst rs) = (map snd rs, world c')"
    and a: "tx_spec_run (wire_of c) d (ram_unread (ramfile c)) rs a" "outcome a \<noteq> Sending"
      "r = (if outcome a = Sent then word_of_nat (sum_list (map block_size (acked a))) else -1)"
      "ram_unread (ramfile c') = unsent a" by blast
  note inv = tx_spec_run_inv [OF a(1) d]
  have "acked a = chunks d (ram_unread (ramfile c)) \<and> unsent a = []" if "outcome a = Sent"
    using tx_spec_sent [OF a(1) d that] inv that by (simp add: tx_spec_inv_def)
  moreover have "\<exists>chs. chunks d (ram_unread (ramfile c)) = acked a @ chs"
    using inv by (auto simp: tx_spec_inv_def intro: sym)
  moreover have "wire_of c n [] = [EOT]" for n by (simp add: tx_wire_def)
  ultimately show ?thesis
    using run a tx_spec_run_acked [OF a(1)]
    by (intro exI [of _ r] exI [of _ c'] exI [of _ rs] exI [of _ a]) auto
qed

text \<open>
  For the witness, a port that keeps a list of the frames sent to it and answers every read with an
  ACK: a file of two bytes goes out as one block and an EOT.
\<close>

definition ack_port :: "u8 list list modem_context" where
  "ack_port = (memset_context (unset_context []))\<lparr>world := [], getchar_cb := Some (serial_getchar (\<lambda>w n. (Some [ACK], w))),
     putchar_cb := Some (\<lambda>w frame. w @ [frame]),
     ramfile := \<lparr>ram_buffer = [7, 8, 9], ram_read_offset = 1, ram_write_offset = 3, ram_max_size = 3\<rparr>,
     blk_buffer := \<lparr>line_buffer = replicate 132 0, line_current_size = 0, line_max_size = 132\<rparr>\<rparr>"

lemma ack_port_exchange:
  "exchange (\<lambda>w frame. w @ [frame]) (serial_getchar (\<lambda>w n. (Some [ACK], w))) w frames =
    (replicate (length frames) (Some ACK), w @ frames)"
proof -
  have "read_answer (serial_getchar (\<lambda>w n. (Some [ACK], w))) 10 w = (Some ACK, w)" for w :: "u8 list list"
    using read_answer.simps(2) [of "serial_getchar (\<lambda>w n. (Some [ACK], w))" 9 w]
    by (simp add: serial_getchar_def serial_read_def serial_read_loop.simps)
  then show ?thesis by (induction frames arbitrary: w) simp_all
qed

theorem send_data_blocks_delivers_witness:
  "\<exists>c'. lxmode_send_data_blocks ack_port = Some (128, c') \<and>
    world c' = [tx_frame False (crc16 ack_port) 1 [8, 9], [EOT]]"
proof -
  have c: "getchar_cb ack_port = Some (serial_getchar (\<lambda>w n. (Some [ACK], w)))"
    "putchar_cb ack_port = Some (\<lambda>w frame. w @ [frame])" "tx_ready ack_port" "128 = unat (fst (tx_block_mode ack_port))"
    "world ack_port = []" "snd (tx_block_mode ack_port) = False" "ram_unread (ramfile ack_port) = [8, 9]"
    by (simp_all add: ack_port_def tx_ready_def tx_line_need_def tx_block_mode_def memset_context_def ram_defs)
  have chs: "chunks 128 [8, 9] = [[8, 9 :: u8]]" by (simp add: chunks_next)
  from send_data_blocks_delivers [OF c(1-4)] obtain r c' rs a where
    run: "lxmode_send_data_blocks ack_port = Some (r, c')"
    and ex: "(replicate (length rs) (Some ACK), map fst rs) = (map snd rs, world c')"
    and a: "tx_spec_run (wire_of ack_port) 128 [8, 9] rs a" "outcome a \<noteq> Sending"
      "outcome a = Sent \<Longrightarrow> acked_frames rs = [wire_of ack_port 1 [8, 9], [EOT]] \<and> r = 128"
    unfolding ack_port_exchange c(5,7) chs by (auto simp: block_size_def split: if_splits)
  have "snd round = Some ACK" if "round \<in> set rs" for round
    using that ex by (metis prod.inject image_eqI list.set_map in_set_replicate)
  then have acked: "filter (\<lambda>(frame, answer). answer = Some ACK) rs = rs"
    by (auto intro!: filter_True)
  have "outcome a = Sent"
    using tx_spec_gave_up [OF a(1)] a(2) \<open>\<And>round. round \<in> set rs \<Longrightarrow> snd round = Some ACK\<close>
    by (cases "outcome a") auto
  with a(3) run ex acked show ?thesis
    by (auto simp: acked_frames_def tx_wire_def c(6))
qed

text \<open>
  C38: \<open>lmodem_set_line_buffer\<close> does not count the SOH or STX. In each mode it accepts a line buffer
  of \<open>LXMODEM_HEADER_SIZE\<close>, a block and its check, but building a full block in just that buffer
  stores the last byte one past its end: the sender has no defined result. With the same set-up, the
  putchar callback and all, every accepted buffer that is larger, by one byte or more, is enough.
\<close>

theorem accepted_line_buffer_too_small:
  assumes "line_buffer_expected_size op \<le> sz" and "length buf = unat sz"
    and "ram_wf rf" and "1024 \<le> length (ram_unread rf)"
  shows "let (ok, c1) = lmodem_set_line_buffer (lmodem_init c op) buf sz;
      c2 = (lmodem_set_putchar_cb c1 (Some p))\<lparr>ramfile := rf\<rparr>
    in ok \<and>
      (lxmode_build_and_send_one_data_block c2 n (fst (tx_block_mode c2)) (snd (tx_block_mode c2)) = None
        \<longleftrightarrow> sz = line_buffer_expected_size op)"
proof -
  let ?c = "(lmodem_set_putchar_cb (snd (lmodem_set_line_buffer (lmodem_init c op) buf sz)) (Some p))\<lparr>ramfile := rf\<rparr>"
  let ?d = "fst (tx_block_mode ?c)" and ?crc = "snd (tx_block_mode ?c)"
  have c: "protocol ?c = XMODEM" "opts ?c = op" "line_buffer (blk_buffer ?c) = buf" "ramfile ?c = rf"
    "putchar_cb ?c = Some p" "fst (lmodem_set_line_buffer (lmodem_init c op) buf sz)"
    using assms(1)
    by (simp_all add: lmodem_set_line_buffer_def lmodem_init_def memset_context_def lmodem_set_putchar_cb_def Let_def)
  have size: "unat (line_buffer_expected_size op) = unat ?d + (if ?crc then 4 else 3)" "?d = 128 \<or> ?d = 1024"
    using c(1,2) by (cases op; simp add: tx_block_mode_def)+
  have sz: "unat (lmodem_buffer_get_size rf) = length (ram_unread rf)" using assms(3) by (rule get_size_unread)
  have "lxmode_build_and_send_one_data_block ?c n ?d ?crc = None \<longleftrightarrow> sz = line_buffer_expected_size op"
  proof (cases "sz = line_buffer_expected_size op")
    case True
    have small: "store_trailer ctx b ?d ?crc = None" if "length b = length buf" for ctx b
      using that size assms(2) True
      by (auto simp: store_trailer_def mem_get_def mem_write_def Let_def unat_word_ariths split: bind_splits if_splits)
    have b: "(if ?d < lmodem_buffer_get_size rf then ?d else lmodem_buffer_get_size rf) = ?d"
      using assms(4) size(2) sz by (auto simp: word_less_nat_alt word_unat_eq_iff)
    have e: "(if ?d \<le> 128 then 128 else 1024) = ?d" "?d \<noteq> 0" "\<not> lmodem_buffer_get_size rf < ?d"
      using size(2) sz assms(4) by (auto simp: word_less_nat_alt)
    have "lxmode_build_and_send_one_data_block ?c n ?d ?crc = None"
      unfolding lxmode_build_and_send_one_data_block_def Let_def c(3,4) b
      by (simp only: e if_False)
        (auto simp: small dest!: mem_write_length mem_put_length split: bind_splits)
    with True show ?thesis by simp
  next
    case False
    then have "unat (line_buffer_expected_size op) < length buf"
      using assms(1,2) by (simp add: word_le_nat_alt word_unat_eq_iff)
    moreover let ?ch = "block_bytes ?d (ram_unread rf)"
    have ch: "length ?ch = unat ?d" using size(2) assms(4) by (auto simp: block_bytes_def)
    ultimately have "length (tx_frame ?crc (crc16 ?c) n ?ch) \<le> length (line_buffer (blk_buffer ?c))"
      unfolding c(3) using size by (auto simp: length_tx_frame block_size_def)
    moreover have "?ch \<noteq> []" using ch size(2) by (auto simp del: length_0_conv simp flip: length_greater_0_conv)
    ultimately show ?thesis
      using send_block_returns [where c = ?c and p = p and d = ?d and ch = ?ch and with_crc = ?crc and n = n] c(4,5) size(2) assms(3) False by auto
  qed
  then show ?thesis using c(6) by (simp only: Let_def case_prod_beta simp_thms)
qed

theorem accepted_line_buffer_too_small_witness:
  "let mk = (\<lambda>sz. (lmodem_set_putchar_cb (snd (lmodem_set_line_buffer (lmodem_init (unset_context ()) Lxmodem_128_with_crc)
        (replicate (unat sz) 0) sz)) (Some (\<lambda>w frame. w)))\<lparr>ramfile := \<lparr>ram_buffer = replicate 1024 0,
          ram_read_offset = 0, ram_write_offset = 1024, ram_max_size = 1024\<rparr>\<rparr>);
      build = (\<lambda>c. lxmode_build_and_send_one_data_block c 1 (fst (tx_block_mode c)) (snd (tx_block_mode c)))
    in build (mk 132) = None \<and> build (mk 133) \<noteq> None"
proof -
  let ?rf = "\<lparr>ram_buffer = replicate 1024 0, ram_read_offset = 0, ram_write_offset = 1024, ram_max_size = 1024\<rparr>"
  have rf: "ram_wf ?rf" "1024 \<le> length (ram_unread ?rf)" by (simp_all add: ram_defs)
  have fits: "line_buffer_expected_size Lxmodem_128_with_crc \<le> 132" "line_buffer_expected_size Lxmodem_128_with_crc \<le> 133"
    "132 = line_buffer_expected_size Lxmodem_128_with_crc" "133 \<noteq> line_buffer_expected_size Lxmodem_128_with_crc" by simp_all
  from accepted_line_buffer_too_small [OF fits(1) length_replicate rf, where c = "unset_context ()" and p = "\<lambda>w frame. w" and n = 1]
    accepted_line_buffer_too_small [OF fits(2) length_replicate rf, where c = "unset_context ()" and p = "\<lambda>w frame. w" and n = 1] fits(3,4)
  show ?thesis by (simp only: Let_def case_prod_beta simp_thms)
qed

end
