(* ===== verification/Wire.thy ===== *)
theory Wire
  imports Serial
begin

text \<open>
  A port to run the program on: it delivers the bytes on the wire in pieces of any size, one
  piece or a part of it per \<open>read\<close>, and takes every byte written. \<open>serial_read\<close> puts the
  pieces together again: over this port the read callback is a stream reader.
\<close>

record wire =
  pending :: "u8 list list"
  sent :: "u8 list"

definition incoming :: "wire \<Rightarrow> u8 list" where
  "incoming w = concat (pending w)"

definition wire_wf :: "wire \<Rightarrow> bool" where
  "wire_wf w \<longleftrightarrow> [] \<notin> set (pending w)"

definition wire_read :: "wire read_call" where
  "wire_read w n =
     (case pending w of
        [] \<Rightarrow> (Some [], w)
      | p # ps \<Rightarrow> (Some (take n p), w\<lparr>pending := (if length p \<le> n then ps else drop n p # ps)\<rparr>))"

definition wire_write :: "wire write_call" where
  "wire_write w data = (Some (length data), w\<lparr>sent := sent w @ data\<rparr>)"

abbreviation wire_getchar :: "wire getchar_fun" where
  "wire_getchar \<equiv> serial_getchar wire_read"

abbreviation wire_putchar :: "wire putchar_fun" where
  "wire_putchar \<equiv> serial_putchar wire_write"

lemma wire_putchar [simp]: "wire_putchar w data = w\<lparr>sent := sent w @ data\<rparr>"
  by (simp add: serial_putchar_def serial_write_def wire_write_def)

lemma incoming_sent [simp]:
  "incoming (w\<lparr>sent := s\<rparr>) = incoming w" "wire_wf (w\<lparr>sent := s\<rparr>) = wire_wf w"
  by (simp_all add: incoming_def wire_wf_def)

lemma wire_read_piece:
  assumes "wire_wf w" and "0 < n" and "incoming w \<noteq> []"
  shows "\<exists>piece w'. wire_read w n = (Some piece, w') \<and> piece \<noteq> [] \<and> length piece \<le> n \<and>
    incoming w = piece @ incoming w' \<and> sent w' = sent w \<and> wire_wf w'"
proof -
  from assms(3) obtain p ps where w: "pending w = p # ps"
    by (cases "pending w") (auto simp: incoming_def)
  with assms(1) have p: "p \<noteq> []" "[] \<notin> set ps" by (auto simp: wire_wf_def)
  show ?thesis
  proof (cases "length p \<le> n")
    case True
    with w p show ?thesis by (simp add: wire_read_def incoming_def wire_wf_def)
  next
    case False
    with w p assms(2) show ?thesis by (simp add: wire_read_def incoming_def wire_wf_def)
  qed
qed

lemma wire_read_loop:
  "wire_wf w \<Longrightarrow> sz \<le> length got + length (incoming w) \<Longrightarrow> length got \<le> sz \<Longrightarrow>
    \<exists>w'. serial_read_loop wire_read w sz got attempt =
        ((True, got @ take (sz - length got) (incoming w)), w') \<and>
      incoming w' = drop (sz - length got) (incoming w) \<and> sent w' = sent w \<and> wire_wf w'"
proof (induction "sz - length got" arbitrary: w got rule: less_induct)
  case less
  show ?case
  proof (cases "length got < sz")
    case True
    with less.prems obtain piece w1 where rd: "wire_read w (sz - length got) = (Some piece, w1)"
      and piece: "piece \<noteq> []" "length piece \<le> sz - length got" "incoming w = piece @ incoming w1"
      and w1: "sent w1 = sent w" "wire_wf w1"
      using wire_read_piece [of w "sz - length got"] by fastforce
    have "0 < length piece" using piece(1) by simp
    with piece True have less1: "sz - length (got @ piece) < sz - length got"
      "length (got @ piece) \<le> sz"
      by (simp_all del: length_greater_0_conv)
    have "sz \<le> length (got @ piece) + length (incoming w1)"
      using less.prems(2) piece(3) by simp
    from less.hyps [OF less1(1) w1(2) this less1(2)] obtain w' where
      "serial_read_loop wire_read w1 sz (got @ piece) attempt =
        ((True, (got @ piece) @ take (sz - length (got @ piece)) (incoming w1)), w')"
      "incoming w' = drop (sz - length (got @ piece)) (incoming w1)" "sent w' = sent w1" "wire_wf w'"
      by blast
    with True rd piece w1 show ?thesis
      by (simp add: serial_read_loop.simps [of wire_read w] diff_diff_left)
  next
    case False
    with less.prems show ?thesis
      by (simp add: serial_read_loop.simps [of wire_read w])
  qed
qed

text \<open>A read of bytes that are on the wire gets exactly these, however they are cut.\<close>

lemma wire_getchar_bytes:
  assumes "wire_wf w" and "incoming w = bytes @ rest" and "unat n = length bytes"
  shows "\<exists>w'. wire_getchar w n = Some ((True, bytes), w') \<and> incoming w' = rest \<and>
    sent w' = sent w \<and> wire_wf w'"
  using wire_read_loop [OF assms(1), of "unat n" "[]" 0] assms(2,3)
  by (auto simp: serial_getchar_def serial_read_def)

lemma wire_serial_read:
  assumes "wire_wf w" and "incoming w = bytes @ rest" and "unat n = length bytes"
  shows "\<exists>w'. serial_read wire_read w n = ((True, bytes), w') \<and> incoming w' = rest \<and>
    sent w' = sent w \<and> wire_wf w'"
  using wire_getchar_bytes [OF assms] by (simp add: serial_getchar_def)

text \<open>A silent port fails, after three empty reads, and stays as it is.\<close>

lemma wire_getchar_silent:
  assumes "pending w = []" and "0 < unat n"
  shows "wire_getchar w n = Some ((False, []), w)"
  using assms
  by (simp add: serial_getchar_def serial_read_def wire_read_def serial_read_loop.simps)

text \<open>The two uses of the callback in the program.\<close>

lemma wire_getchar_byte:
  assumes "getchar_cb c = Some wire_getchar" and "wire_wf (world c)" and "incoming (world c) = x # rest"
  shows "\<exists>w'. lmodem_getchar_byte c = Some (Some x, c\<lparr>world := w'\<rparr>) \<and> incoming w' = rest \<and>
    sent w' = sent (world c) \<and> wire_wf w'"
  using wire_getchar_bytes [OF assms(2), of "[x]" rest 1] assms
  by (auto simp: lmodem_getchar_byte_def lmodem_getchar_def)

lemma wire_getchar_block:
  assumes "getchar_cb c = Some wire_getchar" and "wire_wf (world c)"
    and "incoming (world c) = bytes @ rest" and "unat n = length bytes"
    and "length bytes \<le> length (line_buffer (blk_buffer c))"
  shows "\<exists>w'. lmodem_getchar_block c n = Some (True, c\<lparr>world := w', blk_buffer := (blk_buffer c)
      \<lparr>line_buffer := bytes @ drop (length bytes) (line_buffer (blk_buffer c))\<rparr>\<rparr>) \<and>
    incoming w' = rest \<and> sent w' = sent (world c) \<and> wire_wf w'"
  using wire_getchar_bytes [OF assms(2-4)] assms
  by (auto simp: lmodem_getchar_block_def lmodem_getchar_def mem_put_def)

lemma wire_getchar_byte_silent:
  assumes "getchar_cb c = Some wire_getchar" and "pending (world c) = []"
  shows "lmodem_getchar_byte c = Some (None, c)"
  using wire_getchar_silent [OF assms(2), of 1] assms
  by (simp add: lmodem_getchar_byte_def lmodem_getchar_def)

section \<open>Properties\<close>

text \<open>
  C26: \<open>serial_read\<close> puts a stream together: when the bytes asked for are on the line, it returns
  exactly these, in order, and leaves the rest, into however many non-empty pieces the port cuts
  the stream.
\<close>

theorem serial_read_reassembles:
  assumes "wire_wf w" and "incoming w = bytes @ rest" and "unat n = length bytes"
  shows "\<exists>w'. serial_read wire_read w n = ((True, bytes), w') \<and> incoming w' = rest \<and>
    sent w' = sent w \<and> wire_wf w'"
  using assms by (rule wire_serial_read)

theorem serial_read_reassembles_witness:
  "\<exists>w'. serial_read wire_read \<lparr>pending = [[1, 2], [3], [4, 5, 6]], sent = []\<rparr> 4 = ((True, [1, 2, 3, 4]), w') \<and>
    incoming w' = [5, 6]"
  using serial_read_reassembles [of "\<lparr>pending = [[1, 2], [3], [4, 5, 6]], sent = []\<rparr>" "[1, 2, 3, 4]" "[5, 6]" 4]
  by (auto simp: wire_wf_def incoming_def)

end
