(* ===== verification/Xmodem_Link.thy ===== *)
theory Xmodem_Link
  imports Tx Wire
begin

text \<open>
  An XMODEM sender and receiver over a port that loses nothing: the bytes each of them sends
  are the bytes the other needs, so the two runs fit together, and the receiver ends with the
  sender's file, padded.
\<close>

section \<open>The bytes of a transfer\<close>

fun tx_stream :: "bool \<Rightarrow> crc16_context \<Rightarrow> u8 \<Rightarrow> u8 list list \<Rightarrow> u8 list" where
  "tx_stream with_crc ctx n [] = [EOT]"
| "tx_stream with_crc ctx n (ch # chs) =
     tx_frame with_crc ctx n ch @ tx_stream with_crc ctx (n + 1) chs"

text \<open>A received file is the sent file and less than a block of SUB.\<close>

lemma pad_full: "length ch = 128 \<or> length ch = 1024 \<Longrightarrow> pad_block ch = ch"
  by (auto simp: pad_block_def block_size_def)

lemma concat_pad_chunks:
  assumes "d = 128 \<or> d = 1024"
  shows "\<exists>k < 1024. concat (map pad_block (chunks d xs)) = xs @ replicate k SUB"
proof -
  have d: "0 < d" using assms by auto
  show ?thesis
  proof (induction xs rule: length_induct)
    case (1 xs)
    show ?case
    proof (cases "length xs \<le> d")
      case True
      then have one: "xs \<noteq> [] \<Longrightarrow> chunks d xs = [xs]"
        using d by (simp add: chunks_next)
      have less: "xs \<noteq> [] \<Longrightarrow> block_size xs - length xs < 1024"
        using length_greater_0_conv [of xs] by (auto simp: block_size_def simp del: length_greater_0_conv)
      show ?thesis
      proof (cases "xs = []")
        case True
        then show ?thesis by (intro exI [of _ 0]) simp
      next
        case False
        then show ?thesis using one less
          by (intro exI [of _ "block_size xs - length xs"]) (simp add: pad_block_def)
      qed
    next
      case False
      with d have ne: "xs \<noteq> []" "length (drop d xs) < length xs" by auto
      then obtain k where "k < 1024" "concat (map pad_block (chunks d (drop d xs))) = drop d xs @ replicate k SUB"
        using 1 by blast
      moreover have "pad_block (take d xs) = take d xs"
        using False assms by (intro pad_full) auto
      ultimately show ?thesis using ne d
        by (intro exI [of _ k]) (simp add: chunks_next)
    qed
  qed
qed

section \<open>The sender over the wire\<close>

text \<open>One acknowledged block.\<close>

definition on_wire :: "wire modem_context \<Rightarrow> bool" where
  "on_wire c \<longleftrightarrow>
     getchar_cb c = Some wire_getchar \<and> putchar_cb c = Some wire_putchar \<and> wire_wf (world c)"

lemma tx_answer_round:
  assumes wire: "on_wire c" and ready: "tx_ready c" and ref: "tx_refines a l c"
    and run: "outcome a = Sending" and mode: "unat (fst (tx_block_mode c)) = d"
    and inv: "tx_spec_inv d contents a"
    and inc: "incoming (world c) = x # rest" and cur: "current (tx_offer d a) = Some ch"
  shows "\<exists>l1 c'. send_data_blocks_step l c = Some (handle_answer (Some x) l1, c') \<and> same_setup c c' \<and>
    on_wire c' \<and> tx_ready c' \<and> tx_refines (tx_offer d a) l1 c' \<and>
    ram_contents (ramfile c') = ram_contents (ramfile c) \<and> incoming (world c') = rest \<and>
    sent (world c') = sent (world c) @ wire_of c (word_of_nat (length (acked a)) + 1) ch"
proof -
  have p: "putchar_cb c = Some wire_putchar" and get: "getchar_cb c = Some wire_getchar"
    and wf: "wire_wf (world c)" using wire by (simp_all add: on_wire_def)
  obtain l1 c1 where send: "send_data_block l c = Some (l1, c1)"
    and c1: "same_setup c c1" "tx_ready c1" "ram_contents (ramfile c1) = ram_contents (ramfile c)"
    and ref1: "tx_refines (tx_offer d a) l1 c1"
    and w1: "world c1 = wire_putchar (world c) (wire_of c (word_of_nat (length (acked a)) + 1) ch)"
    using send_data_block_refines [OF ready p ref run, of contents] inv cur mode by auto
  have inc1: "incoming (world c1) = x # rest" "wire_wf (world c1)" using inc wf by (simp_all add: w1)
  have "getchar_cb c1 = Some wire_getchar" using get c1(1) by (simp add: same_setup_frame)
  from wire_getchar_byte [OF this inc1(2,1)] obtain w2 where
    got: "lmodem_getchar_byte c1 = Some (Some x, c1\<lparr>world := w2\<rparr>)"
    and w2: "incoming w2 = rest" "sent w2 = sent (world c1)" "wire_wf w2" by blast
  have "send_data_blocks_step l c = Some (handle_answer (Some x) l1, c1\<lparr>world := w2\<rparr>)"
    using send got by (simp add: send_data_blocks_step_def wait_char.simps)
  moreover have "on_wire (c1\<lparr>world := w2\<rparr>)"
    using wire c1(1) w2(3) by (simp add: on_wire_def same_setup_frame)
  ultimately show ?thesis using c1 ref1 w1 w2
    by (intro exI [of _ l1] exI [of _ "c1\<lparr>world := w2\<rparr>"]) simp
qed

text \<open>The abstract step of a NAK, and of an ACK.\<close>

lemma nak_refines:
  assumes "tx_refines a l c" and "outcome a = Sending" and "tries a < 9"
  shows "tx_refines (a\<lparr>tries := tries a + 1\<rparr>) (handle_answer (Some NAK) l) c"
  using assms by (auto simp: tx_refines_def handle_answer_def tx_holds_def)

lemma nak_inv:
  assumes "tx_spec_inv d contents a" and "0 < d" and "outcome a = Sending" and "tries a < 9"
  shows "tx_spec_inv d contents ((tx_offer d a)\<lparr>tries := tries a + 1\<rparr>)"
proof -
  obtain ch where "current (tx_offer d a) = Some ch" using tx_offer_inv(3) [OF assms(1,2)] by blast
  from tx_spec_step.again [OF assms(3) this _ assms(4), of "Some NAK"] show ?thesis
    using assms(1,2) by (auto intro: tx_spec_step_inv)
qed

definition tx_acked :: "nat \<Rightarrow> tx_spec \<Rightarrow> u8 list \<Rightarrow> tx_spec" where
  "tx_acked d a ch =
     (if ch = [] then (tx_offer d a)\<lparr>current := None, tries := 0, outcome := Sent\<rparr>
      else (tx_offer d a)\<lparr>acked := acked a @ [ch], current := None, tries := 0\<rparr>)"

lemma ack_refines:
  assumes ref: "tx_refines (tx_offer d a) l c" and run: "outcome a = Sending"
    and cur: "current (tx_offer d a) = Some ch" and inv: "tx_spec_inv d contents a" and d: "0 < d"
  shows "tx_refines (tx_acked d a ch) (handle_answer (Some ACK) l) c"
    and "tx_spec_inv d contents (tx_acked d a ch)"
proof -
  note offer = tx_offer_inv [OF inv d]
  have "\<exists>r. tx_spec_step (wire_of c) d a r (tx_acked d a ch)"
    using run cur by (cases "ch = []") (auto simp: tx_acked_def intro: tx_spec_step.ack tx_spec_step.ack_end)
  then show "tx_spec_inv d contents (tx_acked d a ch)" using inv d by (auto intro: tx_spec_step_inv)
  have "tx_holds l c ch" using ref cur run offer(6) by (simp add: tx_refines_def)
  then show "tx_refines (tx_acked d a ch) (handle_answer (Some ACK) l) c"
    using ref run offer(4-6) by (auto simp: tx_acked_def tx_refines_def handle_answer_def tx_holds_def)
qed

text \<open>
  A receiver that refuses the blocks \<open>k1\<close>, \<open>k2\<close>, ... times before it accepts them: its answers,
  and what the sender sends. The last number is for the EOT.
\<close>

definition answers :: "nat list \<Rightarrow> u8 list" where
  "answers ks = concat (map (\<lambda>k. replicate k NAK @ [ACK]) ks)"

fun tx_repeats :: "bool \<Rightarrow> crc16_context \<Rightarrow> u8 \<Rightarrow> u8 list list \<Rightarrow> nat list \<Rightarrow> u8 list" where
  "tx_repeats with_crc ctx n chs [] = []"
| "tx_repeats with_crc ctx n [] (k # ks) = replicate (Suc k) EOT"
| "tx_repeats with_crc ctx n (ch # chs) (k # ks) =
     concat (replicate (Suc k) (tx_frame with_crc ctx n ch)) @ tx_repeats with_crc ctx (n + 1) chs ks"

lemma answers_simps [simp]:
  "answers [] = []" "answers (0 # ks) = ACK # answers ks" "answers (Suc k # ks) = NAK # answers (k # ks)"
  by (simp_all add: answers_def)

lemma answers_zeros: "answers (replicate m 0) = replicate m ACK"
  by (induction m) simp_all

lemma tx_repeats_zeros:
  "tx_repeats with_crc ctx n chs (replicate (length chs + 1) 0) = tx_stream with_crc ctx n chs"
  by (induction chs arbitrary: n) simp_all

lemma tx_repeats_again:
  "tx_repeats with_crc ctx n chs (Suc k # ks) =
    tx_wire with_crc ctx n (if chs = [] then [] else hd chs) @ tx_repeats with_crc ctx n chs (k # ks)"
  if "[] \<notin> set chs"
  using that by (cases chs) (auto simp: tx_wire_def)

text \<open>The sender gets through as long as no block is refused ten times.\<close>

lemma tx_loop_answers:
  "on_wire c \<Longrightarrow> tx_ready c \<Longrightarrow> tx_refines a l c \<Longrightarrow> outcome a = Sending \<Longrightarrow>
    tx_block_mode c = (d, with_crc) \<Longrightarrow> tx_spec_inv (unat d) contents a \<Longrightarrow>
    acked a @ chs = chunks (unat d) contents \<Longrightarrow> length ks = length chs \<Longrightarrow>
    tries a + k < 10 \<Longrightarrow> \<forall>k \<in> set ks. k < 10 \<Longrightarrow> incoming (world c) = answers (k # ks) @ rest \<Longrightarrow>
    \<exists>l' c'. send_data_blocks_loop l c = Some (l', c') \<and> same_setup c c' \<and> on_wire c' \<and>
      ram_contents (ramfile c') = ram_contents (ramfile c) \<and> ram_unread (ramfile c') = [] \<and>
      emittedBytes l' = word_of_nat (sum_list (map block_size (chunks (unat d) contents))) \<and>
      incoming (world c') = rest \<and>
      sent (world c') = sent (world c) @
        tx_repeats with_crc (crc16 c) (word_of_nat (length (acked a)) + 1) chs (k # ks)"
proof (induction "length (incoming (world c))" arbitrary: l c a chs k ks rule: less_induct)
  case less
  note inv = less.prems(6)
  let ?d = "unat d" and ?n = "word_of_nat (length (acked a)) + 1 :: u8"
  have mode: "unat (fst (tx_block_mode c)) = ?d" using less.prems(5) by simp
  have d: "0 < ?d" using tx_mode_cases [of c] less.prems(5) by auto
  note offer = tx_offer_inv [OF inv d]
  obtain ch where ch: "current (tx_offer ?d a) = Some ch" using offer(3) by blast
  have chs: "chs = outstanding (tx_offer ?d a) @ chunks ?d (unsent (tx_offer ?d a))"
    using offer(1,4) less.prems(7) by (metis append_same_eq same_append_eq)
  have ne: "[] \<notin> set chs" using less.prems(7) chunks_set [of "[]" ?d contents]
    by (metis Un_iff set_append)
  have hd: "ch = (if chs = [] then [] else hd chs)"
    using chs ch offer(2) by (auto simp: outstanding_def)
  have fin: "\<not> tx_finished l" using less.prems(3,4) by (simp add: tx_refines_def)
  obtain x more where x: "answers (k # ks) = x # more" by (cases k) simp_all
  with less.prems(11) have inc: "incoming (world c) = x # more @ rest" by simp
  obtain l1 c1 where step: "send_data_blocks_step l c = Some (handle_answer (Some x) l1, c1)"
    and same: "same_setup c c1" and c1: "on_wire c1" "tx_ready c1"
    and ref1: "tx_refines (tx_offer ?d a) l1 c1"
    and ram: "ram_contents (ramfile c1) = ram_contents (ramfile c)"
    and io: "incoming (world c1) = more @ rest"
      "sent (world c1) = sent (world c) @ tx_wire with_crc (crc16 c) ?n ch"
    using tx_answer_round [OF less.prems(1-4) mode inv inc ch] less.prems(5) by auto
  have loop: "send_data_blocks_loop l c = send_data_blocks_loop (handle_answer (Some x) l1) c1"
    using fin step by (simp add: send_data_blocks_loop.simps [of l c])
  have crc: "crc16 c1 = crc16 c" using same by (simp add: same_setup_def)
  have mode1: "tx_block_mode c1 = (d, with_crc)"
    using tx_mode_same_setup [OF same] less.prems(5) by simp
  have shorter: "length (incoming (world c1)) < length (incoming (world c))" using inc io(1) by simp
  note IH = less.hyps [OF shorter c1 _ _ mode1]
  show ?case
  proof (cases k)
    case (Suc k1)
    have x: "x = NAK" "more = answers (k1 # ks)" using x Suc by simp_all
    let ?a = "(tx_offer ?d a)\<lparr>tries := tries a + 1\<rparr>"
    have less9: "tries a < 9" using less.prems(9) Suc by simp
    have ref: "tx_refines ?a (handle_answer (Some x) l1) c1"
      using nak_refines [OF ref1] offer(5,6) less9 less.prems(4) x(1) by simp
    have a: "outcome ?a = Sending" "acked ?a @ chs = chunks ?d contents" "tries ?a + k1 < 10" "acked ?a = acked a"
      using offer(4-6) less.prems(4,7,9) Suc by simp_all
    from IH [OF ref a(1) nak_inv [OF inv d less.prems(4) less9] a(2) less.prems(8) a(3) less.prems(10)]
    show ?thesis
      using loop same_setup_trans [OF same] ram io x(2) crc Suc a(4) hd tx_repeats_again [OF ne] by fastforce
  next
    case 0
    have x: "x = ACK" "more = answers ks" using x 0 by simp_all
    note acked = ack_refines [OF ref1 less.prems(4) ch inv d, folded x(1)]
    show ?thesis
    proof (cases chs)
      case Nil
      let ?l = "handle_answer (Some x) l1"
      have a: "outcome (tx_acked ?d a ch) = Sent" "acked (tx_acked ?d a ch) = chunks ?d contents"
        "unsent (tx_acked ?d a ch) = []"
        using Nil hd less.prems(7) offer ch by (auto simp: tx_acked_def)
      have "send_data_blocks_loop ?l c1 = Some (?l, c1)"
        using acked(1) a(1) by (simp add: send_data_blocks_loop.simps [of ?l] tx_refines_def)
      then show ?thesis
        using loop same c1 ram acked(1) a io Nil less.prems(8) hd 0 x
        by (intro exI [of _ ?l] exI [of _ c1]) (simp add: tx_refines_def tx_wire_def)
    next
      case (Cons ch1 chs1)
      then have hd: "ch = ch1" "ch \<noteq> []" using hd ne by auto
      obtain k1 ks1 where ks: "ks = k1 # ks1" "length ks1 = length chs1"
        using less.prems(8) Cons by (cases ks) auto
      let ?a = "tx_acked ?d a ch"
      have a: "outcome ?a = Sending" "acked ?a @ chs1 = chunks ?d contents" "tries ?a + k1 < 10"
        "\<forall>k \<in> set ks1. k < 10" "incoming (world c1) = answers (k1 # ks1) @ rest" "acked ?a = acked a @ [ch]"
        using less.prems(4,7,10) offer(6) hd Cons ks io(1) x by (auto simp: tx_acked_def)
      from IH [OF acked(1) a(1) acked(2) a(2) ks(2) a(3-5)]
      show ?thesis
        using loop same_setup_trans [OF same] ram io crc 0 a(6) hd Cons ks(1)
        by (fastforce simp: tx_wire_def add.commute add.left_commute)
    qed
  qed
qed

lemma tx_send_answers:
  assumes wire: "on_wire c" and ready: "tx_ready c" and mode: "tx_block_mode c = (d, with_crc)"
    and chs: "chs = chunks (unat d) (ram_unread (ramfile c))"
    and ks: "length ks = length chs + 1" "\<forall>k \<in> set ks. k < 10"
    and inc: "incoming (world c) = answers ks @ rest"
  shows "\<exists>c'. lxmode_send_data_blocks c = Some (word_of_nat (sum_list (map block_size chs)), c') \<and>
    same_setup c c' \<and> on_wire c' \<and> ram_contents (ramfile c') = ram_contents (ramfile c) \<and>
    incoming (world c') = rest \<and>
    sent (world c') = sent (world c) @ tx_repeats with_crc (crc16 c) 1 chs ks"
proof -
  let ?a = "tx_spec_start (ram_unread (ramfile c))"
  have ref: "tx_refines ?a tx_start c"
    by (simp add: tx_refines_def tx_spec_start_def tx_start_def)
  have a: "outcome ?a = Sending" "acked ?a @ chs = chunks (unat d) (ram_unread (ramfile c))" "acked ?a = []"
    using chs by (simp_all add: tx_spec_start_def)
  have inv: "tx_spec_inv (unat d) (ram_unread (ramfile c)) ?a"
    by (simp add: tx_spec_inv_def tx_spec_start_def outstanding_def)
  obtain k ks1 where k: "ks = k # ks1" "length ks1 = length chs" using ks(1) by (cases ks) auto
  then have "tries ?a + k < 10" "\<forall>k \<in> set ks1. k < 10" "incoming (world c) = answers (k # ks1) @ rest"
    using ks(2) inc by (simp_all add: tx_spec_start_def)
  from tx_loop_answers [OF wire ready ref a(1) mode inv a(2) k(2) this] show ?thesis
    using chs a(3) k(1) by (auto simp: lxmode_send_data_blocks_def)
qed

lemma tx_send_wire:
  assumes wire: "on_wire c" and ready: "tx_ready c" and mode: "tx_block_mode c = (d, with_crc)"
    and chs: "chs = chunks (unat d) (ram_unread (ramfile c))"
    and inc: "incoming (world c) = replicate (length chs + 1) ACK @ rest"
  shows "\<exists>c'. lxmode_send_data_blocks c = Some (word_of_nat (sum_list (map block_size chs)), c') \<and>
    same_setup c c' \<and> on_wire c' \<and> ram_contents (ramfile c') = ram_contents (ramfile c) \<and>
    incoming (world c') = rest \<and>
    sent (world c') = sent (world c) @ tx_stream with_crc (crc16 c) 1 chs"
  using tx_send_answers [OF wire ready mode chs, of "replicate (length chs + 1) 0" rest] inc
  by (simp only: answers_zeros tx_repeats_zeros length_replicate) simp

lemma decode_preambule_world: "lxmodem_decode_preambule (c\<lparr>world := w\<rparr>) x = lxmodem_decode_preambule c x"
  by (simp add: lxmodem_decode_preambule_def)

text \<open>With the receiver's first character in front, this is the whole emission.\<close>

lemma emit_answers:
  assumes wire: "on_wire c" and ready: "tx_ready c" and mode: "tx_block_mode c = (d, with_crc)"
    and chs: "chs = chunks (unat d) (ram_unread (ramfile c))"
    and ks: "length ks = length chs + 1" "\<forall>k \<in> set ks. k < 10"
    and inc: "incoming (world c) = x # answers ks @ rest"
    and ok: "lxmodem_decode_preambule c x"
  shows "\<exists>c'. lxmodem_emit c = Some (word_of_nat (sum_list (map block_size chs)), c') \<and>
    same_setup c c' \<and> on_wire c' \<and> ram_contents (ramfile c') = ram_contents (ramfile c) \<and>
    incoming (world c') = rest \<and>
    sent (world c') = sent (world c) @ tx_repeats with_crc (crc16 c) 1 chs ks"
proof -
  have "getchar_cb c = Some wire_getchar" "wire_wf (world c)" using wire by (simp_all add: on_wire_def)
  from wire_getchar_byte [OF this inc] obtain w where
    got: "lmodem_getchar_byte c = Some (Some x, c\<lparr>world := w\<rparr>)"
    and w: "incoming w = answers ks @ rest" "sent w = sent (world c)" "wire_wf w"
    by blast
  let ?c = "c\<lparr>world := w\<rparr>"
  have "on_wire ?c" using wire w(3) by (simp add: on_wire_def)
  moreover have "lxmodem_decode_preambule ?c x" using ok by (simp add: decode_preambule_world)
  ultimately show ?thesis
    using tx_send_answers [of ?c d with_crc chs ks rest] ready mode chs ks got w
    by (auto simp: lxmodem_emit_def wait_char.simps [of c] same_setup_def)
qed

lemma emit_wire:
  assumes wire: "on_wire c" and ready: "tx_ready c" and mode: "tx_block_mode c = (d, with_crc)"
    and chs: "chs = chunks (unat d) (ram_unread (ramfile c))"
    and inc: "incoming (world c) = x # replicate (length chs + 1) ACK @ rest"
    and ok: "lxmodem_decode_preambule c x"
  shows "\<exists>c'. lxmodem_emit c = Some (word_of_nat (sum_list (map block_size chs)), c') \<and>
    same_setup c c' \<and> on_wire c' \<and> ram_contents (ramfile c') = ram_contents (ramfile c) \<and>
    incoming (world c') = rest \<and>
    sent (world c') = sent (world c) @ tx_stream with_crc (crc16 c) 1 chs"
  using emit_answers [OF wire ready mode chs, of "replicate (length chs + 1) 0" x rest] inc ok
  by (simp only: answers_zeros tx_repeats_zeros length_replicate) simp

section \<open>The receiver over the wire\<close>

text \<open>The bytes of a block arrive, and the receiver passes its verdict on them.\<close>

lemma receive_block_bytes:
  assumes wire: "on_wire c" and fits: "frame_size c k \<le> length (line_buffer (blk_buffer c))"
    and k: "unat k \<le> 1024"
    and inc: "incoming (world c) = f @ rest" "length f = frame_size c k"
  shows "\<exists>c'. lxmodem_receive_block c n k =
      Some (block_verdict (block_with_crc c k) (crc16 c) n (unat k) f, c') \<and> same_setup c c' \<and>
    on_wire c' \<and> ramfile c' = ramfile c \<and> take (frame_size c k) (line_buffer (blk_buffer c')) = f \<and>
    incoming (world c') = rest \<and> sent (world c') = sent (world c)"
proof -
  define m where "m = k + LXMODEM_HEADER_SIZE +
    (if block_with_crc c k then LXMODEM_CRC16_SIZE else LXMODEM_CHKSUM_SIZE)"
  have m: "unat m = length f"
    using k inc(2) by (auto simp: m_def frame_size_def unat_word_ariths)
  have "getchar_cb c = Some wire_getchar" "wire_wf (world c)" using wire by (simp_all add: on_wire_def)
  from wire_getchar_block [OF this inc(1) m] fits inc(2) obtain w where
    got: "lmodem_getchar_block c m = Some (True, c\<lparr>world := w, blk_buffer := (blk_buffer c)
      \<lparr>line_buffer := f @ drop (length f) (line_buffer (blk_buffer c))\<rparr>\<rparr>)"
    and w: "incoming w = rest" "sent w = sent (world c)" "wire_wf w" by auto
  let ?c = "c\<lparr>world := w, blk_buffer := (blk_buffer c)
      \<lparr>line_buffer := f @ drop (length f) (line_buffer (blk_buffer c))\<rparr>\<rparr>"
  have same: "same_setup c ?c" using fits inc(2) by (simp add: same_setup_def)
  note frame = same_setup_frame [OF same]
  have "frame_size ?c k \<le> length (line_buffer (blk_buffer ?c))" using fits frame by simp
  from check_block_verdict [OF this, of n] inc(2) frame
  have "lxmodem_check_block_no_and_crc ?c n k =
      Some (block_verdict (block_with_crc c k) (crc16 c) n (unat k) f)" by simp
  then have "lxmodem_receive_block c n k =
      Some (block_verdict (block_with_crc c k) (crc16 c) n (unat k) f, ?c)"
    using got unfolding lxmodem_receive_block_def m_def [symmetric] by simp
  moreover have "on_wire ?c" using wire w(3) by (simp add: on_wire_def)
  ultimately show ?thesis using same w inc(2)
    by (intro exI [of _ ?c]) simp
qed

lemma receive_block_wire:
  assumes wire: "on_wire c" and fits: "frame_size c k \<le> length (line_buffer (blk_buffer c))"
    and k: "unat k = length data" "unat k \<le> 1024"
    and inc: "incoming (world c) = block_frame (block_with_crc c k) (crc16 c) n data @ rest"
  shows "\<exists>c'. lxmodem_receive_block c n k = Some (LXMODEM_RECV_OK, c') \<and> same_setup c c' \<and>
    on_wire c' \<and> ramfile c' = ramfile c \<and> take (unat k) (drop 2 (line_buffer (blk_buffer c'))) = data \<and>
    incoming (world c') = rest \<and> sent (world c') = sent (world c)"
proof -
  let ?f = "block_frame (block_with_crc c k) (crc16 c) n data"
  have len: "length ?f = frame_size c k" using k by (simp add: length_block_frame frame_size_def)
  obtain c' where "lxmodem_receive_block c n k = Some (LXMODEM_RECV_OK, c')" "same_setup c c'"
    "on_wire c'" "ramfile c' = ramfile c" "take (frame_size c k) (line_buffer (blk_buffer c')) = ?f"
    "incoming (world c') = rest" "sent (world c') = sent (world c)"
    using receive_block_bytes [OF wire fits k(2) inc len, of n] verdict_frame [of _ "crc16 c" n data] k(1)
    by auto
  moreover from this(5) have "take (unat k) (drop 2 (take (frame_size c k) (line_buffer (blk_buffer c')))) = data"
    using k(1) by (simp add: block_frame_def)
  then have "take (unat k) (drop 2 (line_buffer (blk_buffer c'))) = data"
    by (simp add: frame_size_def drop_take min_def split: if_splits)
  ultimately show ?thesis by blast
qed

text \<open>The receiver reads the blocks of a sender in its own mode, with the same CRC table.\<close>

definition rx_accepts :: "'w modem_context \<Rightarrow> bool \<Rightarrow> crc16_context \<Rightarrow> nat \<Rightarrow> bool" where
  "rx_accepts c with_crc ctx d \<longleftrightarrow>
     d \<le> 1024 \<and> (128 < d \<longrightarrow> with_crc \<and> (opts c = Lxmodem_1k \<or> protocol c = YMODEM)) \<and>
     (with_crc \<longleftrightarrow> withCrc c \<or> protocol c = YMODEM) \<and>
     block_trailer with_crc ctx = block_trailer with_crc (crc16 c)"

lemma rx_accepts_same_setup: "same_setup c c' \<Longrightarrow> rx_accepts c' with_crc ctx d = rx_accepts c with_crc ctx d"
  by (simp add: rx_accepts_def same_setup_def)

lemma header_wire:
  assumes wire: "on_wire c" and ready: "rx_ready c" and acc: "rx_accepts c with_crc ctx d"
    and ch: "length ch \<le> d"
    and inc: "x # incoming (world c) = tx_frame with_crc ctx (expectedBlkNumber l) ch @ rest"
  shows "\<exists>c'. lxmodem_receive_header x l c = Some (LXMODEM_RECV_OK,
      l\<lparr>canCharReceived := 0, blksize := word_of_nat (block_size ch)\<rparr>, c') \<and> same_setup c c' \<and>
    on_wire c' \<and> ramfile c' = ramfile c \<and>
    take (block_size ch) (drop 2 (line_buffer (blk_buffer c'))) = pad_block ch \<and>
    incoming (world c') = rest \<and> sent (world c') = sent (world c)"
proof -
  let ?k = "word_of_nat (block_size ch) :: u32" and ?n = "expectedBlkNumber l"
  have len: "length (pad_block ch) = block_size ch"
    using acc ch by (intro length_pad_block) (simp add: rx_accepts_def)
  have k: "unat ?k = block_size ch" "block_size ch \<le> 1024"
    by (simp_all add: block_size_def)
  have crc: "block_with_crc c ?k = with_crc"
    using acc ch by (auto simp: rx_accepts_def block_with_crc_def block_size_def)
  have trailer: "block_trailer with_crc ctx = block_trailer with_crc (crc16 c)"
    using acc unfolding rx_accepts_def by blast
  have frame: "incoming (world c) = block_frame (block_with_crc c ?k) (crc16 c) ?n (pad_block ch) @ rest"
    and x: "x = (if length ch \<le> 128 then SOH else STX)"
    using inc crc trailer by (simp_all add: tx_frame_def block_frame_def)
  have mode: "length ch \<le> 128 \<or> opts c = Lxmodem_1k \<or> protocol c = YMODEM"
    using acc ch by (auto simp: rx_accepts_def)
  have "frame_size c ?k \<le> length (line_buffer (blk_buffer c))"
    using frame_size_128 [OF ready] frame_size_1024 [OF ready] mode by (auto simp: block_size_def)
  from receive_block_wire [OF wire this _ _ frame] k len mode x show ?thesis
    by (auto simp: lxmodem_receive_header_def block_size_def split: if_splits)
qed

lemma rx_round_wire:
  assumes wire: "on_wire c" and ready: "rx_ready c" and acc: "rx_accepts c with_crc ctx d"
    and ch: "length ch \<le> d" and room: "block_size ch < ram_room (ramfile c)"
    and inc: "incoming (world c) = tx_frame with_crc ctx (expectedBlkNumber l) ch @ rest"
  shows "\<exists>c'. lxmodem_receive_step l c = Some
      (stored_locals (l\<lparr>canCharReceived := 0, blksize := word_of_nat (block_size ch)\<rparr>), c') \<and>
    same_setup c c' \<and> on_wire c' \<and> rx_ready c' \<and>
    ram_contents (ramfile c') = ram_contents (ramfile c) @ pad_block ch \<and>
    ram_room (ramfile c') = ram_room (ramfile c) - block_size ch \<and>
    incoming (world c') = rest \<and> sent (world c') = sent (world c) @ [ACK]"
proof -
  let ?l = "l\<lparr>canCharReceived := 0, blksize := word_of_nat (block_size ch)\<rparr>"
  have cb: "getchar_cb c = Some wire_getchar" "wire_wf (world c)" using wire by (simp_all add: on_wire_def)
  obtain x bytes where fr: "tx_frame with_crc ctx (expectedBlkNumber l) ch = x # bytes"
    by (cases "tx_frame with_crc ctx (expectedBlkNumber l) ch") simp_all
  with inc have "incoming (world c) = x # bytes @ rest" by simp
  from wire_getchar_byte [OF cb this] obtain w where
    got: "lmodem_getchar_byte c = Some (Some x, c\<lparr>world := w\<rparr>)"
    and w: "incoming w = bytes @ rest" "sent w = sent (world c)" "wire_wf w" by blast
  let ?c = "c\<lparr>world := w\<rparr>"
  have "x # incoming (world ?c) = tx_frame with_crc ctx (expectedBlkNumber l) ch @ rest"
    using w fr by simp
  moreover have "on_wire ?c" "rx_ready ?c" "rx_accepts ?c with_crc ctx d"
    using wire ready acc w(3) rx_accepts_same_setup [of c ?c] by (simp_all add: on_wire_def)
  ultimately obtain c1 where hd: "lxmodem_receive_header x l ?c = Some (LXMODEM_RECV_OK, ?l, c1)"
    and same: "same_setup ?c c1" and c1: "on_wire c1" "ramfile c1 = ramfile c"
    "take (block_size ch) (drop 2 (line_buffer (blk_buffer c1))) = pad_block ch"
    "incoming (world c1) = rest" "sent (world c1) = sent (world c)"
    using header_wire [of ?c with_crc ctx d ch x l rest] ch w(2) by auto
  have p: "putchar_cb c1 = Some wire_putchar" using c1(1) by (simp add: on_wire_def)
  let ?c2 = "c1\<lparr>world := wire_putchar (world c1) [ACK]\<rparr>"
  have rep: "lxmodem_build_and_send_reply c1 LXMODEM_RECV_OK = Some ?c2"
    using reply_returns [OF p, of LXMODEM_RECV_OK] by simp
  have k: "unat (word_of_nat (block_size ch) :: u32) = block_size ch" "block_size ch \<le> 1024"
    by (simp_all add: block_size_def)
  have "ram_wf (ramfile c)" using ready by (simp add: rx_ready_def)
  moreover have "length (pad_block ch) = block_size ch"
    using acc ch by (intro length_pad_block) (simp add: rx_accepts_def)
  then have "block_size ch \<le> length (drop 2 (line_buffer (blk_buffer c1)))"
    using c1(3) by (metis length_take min.cobounded1)
  ultimately obtain rf where wr: "lmodem_buffer_write (ramfile ?c2) (drop 2 (line_buffer (blk_buffer ?c2)))
      (word_of_nat (block_size ch)) = Some (word_of_nat (block_size ch), rf)"
    and rf: "ram_wf rf" "ram_contents rf = ram_contents (ramfile c) @ pad_block ch"
      "ram_room rf = ram_room (ramfile c) - block_size ch"
    using buffer_write_room [of "ramfile c" "word_of_nat (block_size ch)" "drop 2 (line_buffer (blk_buffer c1))"]
      k room c1 by auto
  have st: "lxmodem_receive_store ?l ?c2 = Some (stored_locals ?l, ?c2\<lparr>ramfile := rf\<rparr>)"
    using wr by (simp add: lxmodem_receive_store_def)
  have kept: "same_setup c (?c2\<lparr>ramfile := rf\<rparr>)" using same by (simp add: same_setup_def)
  have "rx_ready (?c2\<lparr>ramfile := rf\<rparr>)" using rx_ready_same_setup [OF ready kept] rf(1) by simp
  then show ?thesis using got hd rep st kept c1 rf
    by (intro exI [of _ "?c2\<lparr>ramfile := rf\<rparr>"])
      (simp add: lxmodem_receive_step_def on_wire_def)
qed

text \<open>The EOT.\<close>

lemma rx_eot_wire:
  assumes wire: "on_wire c" and ready: "rx_ready c" and inc: "incoming (world c) = EOT # rest"
  shows "\<exists>c'. lxmodem_receive_step l c =
      Some (stored_locals (l\<lparr>canCharReceived := 0, blksize := 0, bFinished := True\<rparr>), c') \<and>
    same_setup c c' \<and> on_wire c' \<and> ram_contents (ramfile c') = ram_contents (ramfile c) \<and>
    incoming (world c') = rest \<and> sent (world c') = sent (world c) @ [ACK]"
proof -
  let ?l = "l\<lparr>canCharReceived := 0, blksize := 0, bFinished := True\<rparr>"
  have cb: "getchar_cb c = Some wire_getchar" "wire_wf (world c)" "putchar_cb c = Some wire_putchar"
    using wire by (simp_all add: on_wire_def)
  from wire_getchar_byte [OF cb(1,2) inc] obtain w where
    got: "lmodem_getchar_byte c = Some (Some EOT, c\<lparr>world := w\<rparr>)"
    and w: "incoming w = rest" "sent w = sent (world c)" "wire_wf w" by blast
  let ?c = "c\<lparr>world := wire_putchar w [ACK]\<rparr>"
  have wf: "ram_wf (ramfile c)" using ready by (simp add: rx_ready_def)
  obtain rf where wr: "lmodem_buffer_write (ramfile c) (drop 2 (line_buffer (blk_buffer c))) 0 = Some (0, rf)"
    and rf: "ram_contents rf = ram_contents (ramfile c)"
    using buffer_write_cases [OF wf, of 0 "drop 2 (line_buffer (blk_buffer c))"] by auto
  have "lxmodem_build_and_send_reply (c\<lparr>world := w\<rparr>) LXMODEM_RECV_OK = Some ?c"
    using reply_returns [of "c\<lparr>world := w\<rparr>" wire_putchar LXMODEM_RECV_OK] cb(3) by simp
  then show ?thesis using got w wr rf wire
    by (intro exI [of _ "?c\<lparr>ramfile := rf\<rparr>"])
      (simp add: lxmodem_receive_step_def lxmodem_receive_header_def lxmodem_receive_store_def on_wire_def
        same_setup_def)
qed

lemma rx_loop_wire:
  "on_wire c \<Longrightarrow> rx_ready c \<Longrightarrow> rx_accepts c with_crc ctx d \<Longrightarrow> \<forall>ch \<in> set chs. length ch \<le> d \<Longrightarrow>
    sum_list (map block_size chs) < ram_room (ramfile c) \<Longrightarrow> \<not> bFinished l \<Longrightarrow>
    incoming (world c) = tx_stream with_crc ctx (expectedBlkNumber l) chs @ rest \<Longrightarrow>
    \<exists>l' c'. lxmodem_receive_loop l c = Some (l', c') \<and> same_setup c c' \<and> on_wire c' \<and>
      receivedBytes l' = receivedBytes l + word_of_nat (sum_list (map block_size chs)) \<and>
      ram_contents (ramfile c') = ram_contents (ramfile c) @ concat (map pad_block chs) \<and>
      incoming (world c') = rest \<and>
      sent (world c') = sent (world c) @ replicate (length chs + 1) ACK"
proof (induction chs arbitrary: l c)
  case Nil
  then obtain c' where "lxmodem_receive_step l c =
      Some (stored_locals (l\<lparr>canCharReceived := 0, blksize := 0, bFinished := True\<rparr>), c')"
    "same_setup c c'" "on_wire c'" "ram_contents (ramfile c') = ram_contents (ramfile c)"
    "incoming (world c') = rest" "sent (world c') = sent (world c) @ [ACK]"
    using rx_eot_wire [OF Nil.prems(1,2), of rest l] by auto
  with Nil.prems(6) show ?case
    by (simp add: lxmodem_receive_loop.simps [of l c])
      (simp add: lxmodem_receive_loop.simps)
next
  case (Cons ch chs)
  let ?l = "stored_locals (l\<lparr>canCharReceived := 0, blksize := word_of_nat (block_size ch)\<rparr>)"
  have ch: "length ch \<le> d" "block_size ch < ram_room (ramfile c)" using Cons.prems(4,5) by simp_all
  have "incoming (world c) = tx_frame with_crc ctx (expectedBlkNumber l) ch @
      (tx_stream with_crc ctx (expectedBlkNumber l + 1) chs @ rest)" using Cons.prems(7) by simp
  from rx_round_wire [OF Cons.prems(1-3) ch this] obtain c1 where
    step: "lxmodem_receive_step l c = Some (?l, c1)" and same: "same_setup c c1"
    and c1: "on_wire c1" "rx_ready c1" and ram: "ram_contents (ramfile c1) = ram_contents (ramfile c) @ pad_block ch"
      "ram_room (ramfile c1) = ram_room (ramfile c) - block_size ch"
    and io: "incoming (world c1) = tx_stream with_crc ctx (expectedBlkNumber l + 1) chs @ rest"
      "sent (world c1) = sent (world c) @ [ACK]" by blast
  have loop: "lxmodem_receive_loop l c = lxmodem_receive_loop ?l c1"
    using step Cons.prems(6) by (simp add: lxmodem_receive_loop.simps [of l c])
  have "rx_accepts c1 with_crc ctx d" "\<forall>ch \<in> set chs. length ch \<le> d"
    "sum_list (map block_size chs) < ram_room (ramfile c1)" "\<not> bFinished ?l"
    "incoming (world c1) = tx_stream with_crc ctx (expectedBlkNumber ?l) chs @ rest"
    using rx_accepts_same_setup [OF same] Cons.prems(3-6) ram io by auto
  from Cons.IH [OF c1 this] loop io ram same_setup_trans [OF same] show ?case
    by (auto simp: add.assoc)
qed

lemma receive_wire:
  assumes wire: "on_wire c" and ready: "rx_ready c" and acc: "rx_accepts c with_crc ctx d"
    and chs: "\<forall>ch \<in> set chs. length ch \<le> d"
    and room: "sum_list (map block_size chs) < ram_room (ramfile c)"
    and inc: "incoming (world c) = tx_stream with_crc ctx 1 chs @ rest"
  shows "\<exists>c'. lxmodem_receive c = Some (word_of_nat (sum_list (map block_size chs)), c') \<and>
    same_setup c c' \<and> on_wire c' \<and>
    ram_contents (ramfile c') = ram_contents (ramfile c) @ concat (map pad_block chs) \<and>
    incoming (world c') = rest \<and>
    sent (world c') = sent (world c) @ lxmodem_preambule_char c # replicate (length chs + 1) ACK"
proof -
  have p: "putchar_cb c = Some wire_putchar" using wire by (simp add: on_wire_def)
  let ?c = "c\<lparr>world := wire_putchar (world c) [lxmodem_preambule_char c]\<rparr>"
  have pre: "lxmodem_build_and_send_preambule c = Some ?c" using preambule_returns [OF p] by simp
  have same: "same_setup c ?c" by simp
  have "on_wire ?c" "rx_ready ?c" "rx_accepts ?c with_crc ctx d"
    "sum_list (map block_size chs) < ram_room (ramfile ?c)" "\<not> bFinished rx_start"
    "incoming (world ?c) = tx_stream with_crc ctx (expectedBlkNumber rx_start) chs @ rest"
    using wire ready room inc rx_accepts_same_setup [OF same] acc by (simp_all add: on_wire_def rx_start_def)
  from rx_loop_wire [OF this(1-3) chs this(4-6)] obtain l' c' where
    run: "lxmodem_receive_loop rx_start ?c = Some (l', c')" "same_setup ?c c'" "on_wire c'"
    and res: "receivedBytes l' = receivedBytes rx_start + word_of_nat (sum_list (map block_size chs))"
      "ram_contents (ramfile c') = ram_contents (ramfile c) @ concat (map pad_block chs)"
      "incoming (world c') = rest"
      "sent (world c') = sent (world ?c) @ replicate (length chs + 1) ACK" by auto
  show ?thesis
    using pre run res same_setup_trans [OF same run(2)]
    by (intro exI [of _ c']) (simp add: lxmodem_receive_def rx_start_def)
qed

section \<open>A silent port\<close>

lemma rx_loop_silent:
  "on_wire c \<Longrightarrow> pending (world c) = [] \<Longrightarrow> \<not> bFinished l \<Longrightarrow> nbRetry l < 10 \<Longrightarrow>
    \<exists>l'. lxmodem_receive_loop l c = Some (l', c\<lparr>world := wire_putchar (world c) [CAN, CAN]\<rparr>) \<and>
      receivedBytes l' = -1"
proof (induction "10 - nbRetry l" arbitrary: l)
  case (Suc n)
  have cb: "getchar_cb c = Some wire_getchar" "putchar_cb c = Some wire_putchar"
    using Suc.prems(1) by (simp_all add: on_wire_def)
  have step: "lxmodem_receive_step l c = lxmodem_receive_retry l c"
    using wire_getchar_byte_silent [OF cb(1) Suc.prems(2)] by (simp add: lxmodem_receive_step_def)
  show ?case
  proof (cases "nbRetry l + 1 < 10")
    case True
    let ?l = "l\<lparr>nbRetry := nbRetry l + 1\<rparr>"
    have "lxmodem_receive_step l c = Some (?l, c)"
      using step True by (simp add: lxmodem_receive_retry_def)
    then have "lxmodem_receive_loop l c = lxmodem_receive_loop ?l c"
      using Suc.prems(3) by (simp add: lxmodem_receive_loop.simps [of l c])
    moreover have "n = 10 - nbRetry ?l" using Suc.hyps(2) by simp
    ultimately show ?thesis using Suc.hyps(1) [of ?l] Suc.prems True by simp
  next
    case False
    let ?l = "l\<lparr>nbRetry := nbRetry l + 1, receivedBytes := -1, bFinished := True\<rparr>"
    have "lxmodem_receive_step l c = Some (?l, c\<lparr>world := wire_putchar (world c) [CAN, CAN]\<rparr>)"
      using step False cancel_returns [OF cb(2)] by (simp add: lxmodem_receive_retry_def)
    then show ?thesis using Suc.prems(3)
      by (simp add: lxmodem_receive_loop.simps [of l c])
        (simp add: lxmodem_receive_loop.simps)
  qed
qed simp

lemma wait_char_silent:
  "getchar_cb c = Some wire_getchar \<Longrightarrow> pending (world c) = [] \<Longrightarrow> wait_char c t = Some (None, c)"
proof (induction c t rule: wait_char.induct)
  case (1 c t)
  note got = wire_getchar_byte_silent [OF "1.prems"]
  show ?case
  proof (cases "t < 10")
    case True
    from "1.IH" [OF True got refl refl "1.prems"] got True show ?thesis
      by (simp add: wait_char.simps [of c t])
  qed (simp add: wait_char.simps)
qed

section \<open>A receiver that never accepts\<close>

text \<open>After the first emission of a chunk, every NAK makes the sender repeat it, up to ten times in all.\<close>

lemma wire_of_same: "same_setup c c' \<Longrightarrow> wire_of c' n ch = wire_of c n ch"
  using tx_mode_same_setup [of c c'] by (simp add: same_setup_def)

lemma tx_loop_naks:
  "on_wire c \<Longrightarrow> tx_ready c \<Longrightarrow> tx_refines a l c \<Longrightarrow> outcome a = Sending \<Longrightarrow>
    unat (fst (tx_block_mode c)) = d \<Longrightarrow> tx_spec_inv d contents a \<Longrightarrow>
    current (tx_offer d a) = Some ch \<Longrightarrow> 10 - tries a = Suc n \<Longrightarrow>
    incoming (world c) = replicate (Suc n) NAK @ rest \<Longrightarrow>
    \<exists>l' c'. send_data_blocks_loop l c = Some (l', c') \<and> emittedBytes l' = -1 \<and>
      incoming (world c') = rest \<and>
      sent (world c') = sent (world c) @ concat (replicate (Suc n)
        (wire_of c (word_of_nat (length (acked a)) + 1) ch))"
proof (induction n arbitrary: a l c)
  case (0 a l c)
  have fin: "\<not> tx_finished l" using "0.prems"(3,4) by (simp add: tx_refines_def)
  have inc: "incoming (world c) = NAK # rest" using "0.prems"(9) by simp
  obtain l1 c1 where step: "send_data_blocks_step l c = Some (handle_answer (Some NAK) l1, c1)"
    and ref1: "tx_refines (tx_offer d a) l1 c1" and io: "incoming (world c1) = rest"
      "sent (world c1) = sent (world c) @ wire_of c (word_of_nat (length (acked a)) + 1) ch"
    using tx_answer_round [OF "0.prems"(1-6) inc "0.prems"(7)] by blast
  have "tries (tx_offer d a) = tries a" by (simp add: tx_offer_def split: option.splits)
  then have "retry l1 = 9" using ref1 "0.prems"(8) by (simp add: tx_refines_def)
  then have last: "tx_finished (handle_answer (Some NAK) l1)" "emittedBytes (handle_answer (Some NAK) l1) = -1"
    by (simp_all add: handle_answer_def)
  then have "send_data_blocks_loop (handle_answer (Some NAK) l1) c1 = Some (handle_answer (Some NAK) l1, c1)"
    by (subst send_data_blocks_loop.simps) (simp only: if_True)
  with fin step last io show ?case
    by (intro exI [of _ "handle_answer (Some NAK) l1"] exI [of _ c1])
      (simp add: send_data_blocks_loop.simps [of l c])
next
  case (Suc n a l c)
  have fin: "\<not> tx_finished l" using Suc.prems(3,4) by (simp add: tx_refines_def)
  have d: "0 < d" using tx_mode_cases [of c] Suc.prems(5) by auto
  have less: "tries a < 9" using Suc.prems(8) by simp
  have inc: "incoming (world c) = NAK # (replicate (Suc n) NAK @ rest)" using Suc.prems(9) by simp
  obtain l1 c1 where step: "send_data_blocks_step l c = Some (handle_answer (Some NAK) l1, c1)"
    and c1: "same_setup c c1" "on_wire c1" "tx_ready c1" and ref1: "tx_refines (tx_offer d a) l1 c1"
    and io: "incoming (world c1) = replicate (Suc n) NAK @ rest"
      "sent (world c1) = sent (world c) @ wire_of c (word_of_nat (length (acked a)) + 1) ch"
    using tx_answer_round [OF Suc.prems(1-6) inc Suc.prems(7)] by blast
  let ?a = "(tx_offer d a)\<lparr>tries := tries a + 1\<rparr>"
  have keep: "tries (tx_offer d a) = tries a" "outcome (tx_offer d a) = outcome a" "acked ?a = acked a"
    by (simp_all add: tx_offer_def split: option.splits)
  have ref: "tx_refines ?a (handle_answer (Some NAK) l1) c1"
    using nak_refines [OF ref1] keep less Suc.prems(4) by simp
  have next_a: "outcome ?a = Sending" "current (tx_offer d ?a) = Some ch" "10 - tries ?a = Suc n"
    using keep Suc.prems(4,7,8) by (simp_all add: tx_offer_def split: option.splits)
  have mode: "unat (fst (tx_block_mode c1)) = d" using tx_mode_same_setup [OF c1(1)] Suc.prems(5) by simp
  from Suc.IH [OF c1(2,3) ref next_a(1) mode nak_inv [OF Suc.prems(6) d Suc.prems(4) less] next_a(2,3) io(1)]
  obtain l' c' where "send_data_blocks_loop (handle_answer (Some NAK) l1) c1 = Some (l', c')"
    "emittedBytes l' = -1" "incoming (world c') = rest"
    "sent (world c') = sent (world c1) @ concat (replicate (Suc n) (wire_of c1 (word_of_nat (length (acked ?a)) + 1) ch))"
    by blast
  with fin step io keep(3) show ?case
    by (intro exI [of _ l'] exI [of _ c'])
      (simp add: send_data_blocks_loop.simps [of l c] wire_of_same [OF c1(1)])
qed

section \<open>A block sent twice\<close>

text \<open>A block that the receiver refuses, or has already: it answers, and has used up a retry.\<close>

lemma rx_refused_wire:
  assumes wire: "on_wire c" and ready: "rx_ready c" and acc: "rx_accepts c with_crc ctx d"
    and ch: "length ch \<le> d" and run: "\<not> bFinished l" "nbRetry l < 9"
    and f: "length f = block_size ch + (if with_crc then 4 else 3)"
    and st: "st = block_verdict with_crc (crc16 c) (expectedBlkNumber l) (block_size ch) f"
      "st \<noteq> LXMODEM_RECV_OK"
    and inc: "incoming (world c) = (if length ch \<le> 128 then SOH else STX) # f @ rest"
  shows "\<exists>l' c'. lxmodem_receive_step l c = Some (l', c') \<and> same_setup c c' \<and> on_wire c' \<and> rx_ready c' \<and>
    ramfile c' = ramfile c \<and>
    sent (world c') = sent (world c) @ [if st = LXMODEM_RECV_PREVIOUS_BLOCK then ACK else NAK] \<and>
    incoming (world c') = rest \<and>
    expectedBlkNumber l' = expectedBlkNumber l \<and> receivedBytes l' = receivedBytes l \<and>
    nbRetry l' = nbRetry l + 1 \<and> \<not> bFinished l'"
proof -
  let ?k = "word_of_nat (block_size ch) :: u32" and ?n = "expectedBlkNumber l"
  have k: "unat ?k = block_size ch" "block_size ch \<le> 1024"
    by (simp_all add: block_size_def)
  have crc: "block_with_crc c ?k = with_crc"
    using acc ch by (auto simp: rx_accepts_def block_with_crc_def block_size_def)
  let ?x = "if length ch \<le> 128 then SOH else STX"
  have cb: "getchar_cb c = Some wire_getchar" "wire_wf (world c)" using wire by (simp_all add: on_wire_def)
  from wire_getchar_byte [OF cb inc] obtain w where
    got: "lmodem_getchar_byte c = Some (Some ?x, c\<lparr>world := w\<rparr>)"
    and w: "incoming w = f @ rest" "sent w = sent (world c)" "wire_wf w" by blast
  let ?c = "c\<lparr>world := w\<rparr>"
  have c: "on_wire ?c" "frame_size ?c ?k \<le> length (line_buffer (blk_buffer ?c))" "unat ?k \<le> 1024"
    "incoming (world ?c) = f @ rest" "length f = frame_size ?c ?k"
    using wire w crc k f frame_size_128 [OF ready] frame_size_1024 [OF ready] acc ch
    by (auto simp: on_wire_def block_size_def rx_accepts_def frame_size_def)
  obtain c1 where blk: "lxmodem_receive_block ?c ?n ?k = Some (st, c1)"
    and c1: "same_setup ?c c1" "on_wire c1" "ramfile c1 = ramfile c" "incoming (world c1) = rest"
      "sent (world c1) = sent (world c)"
    using receive_block_bytes [OF c, of ?n] k crc w(2) st(1) by auto
  have hd: "lxmodem_receive_header ?x l ?c = Some (st, l\<lparr>canCharReceived := 0, blksize := ?k\<rparr>, c1)"
    using blk acc ch by (auto simp: lxmodem_receive_header_def block_size_def rx_accepts_def)
  have p: "putchar_cb c1 = Some wire_putchar" using c1(2) by (simp add: on_wire_def)
  let ?c2 = "c1\<lparr>world := wire_putchar (world c1) [if st = LXMODEM_RECV_PREVIOUS_BLOCK then ACK else NAK]\<rparr>"
  have "lxmodem_build_and_send_reply c1 st = Some ?c2"
    using reply_returns [OF p, of st] st(2) by simp
  then have "lxmodem_receive_step l c =
      Some (l\<lparr>canCharReceived := 0, blksize := ?k, nbRetry := nbRetry l + 1\<rparr>, ?c2)"
    using got hd run(2) st(2) by (simp add: lxmodem_receive_step_def lxmodem_receive_retry_def)
  moreover have same: "same_setup c ?c2" using c1(1) by (simp add: same_setup_def)
  moreover have "rx_ready ?c2"
    using rx_ready_same_setup [OF ready same] ready c1(3) by (simp add: rx_ready_def)
  ultimately show ?thesis using c1 run(1)
    by (intro exI [of _ "l\<lparr>canCharReceived := 0, blksize := ?k, nbRetry := nbRetry l + 1\<rparr>"]
        exI [of _ ?c2]) (simp add: on_wire_def)
qed

section \<open>Properties\<close>

text \<open>
  C19: A block whose acknowledgement was lost, and which the sender therefore sends again, is
  acknowledged again and not stored twice: the file, the expected number and the byte count
  stay as they are, and the round counts as one retry.
\<close>

theorem duplicate_block_acknowledged:
  assumes "on_wire c" and "rx_ready c" and "rx_accepts c with_crc ctx d" and "length ch \<le> d"
    and "\<not> bFinished l" and "nbRetry l < 9"
    and "incoming (world c) = tx_frame with_crc ctx (expectedBlkNumber l - 1) ch @ rest"
  shows "\<exists>l' c'. lxmodem_receive_step l c = Some (l', c') \<and> ramfile c' = ramfile c \<and>
    sent (world c') = sent (world c) @ [ACK] \<and> incoming (world c') = rest \<and>
    expectedBlkNumber l' = expectedBlkNumber l \<and> receivedBytes l' = receivedBytes l \<and>
    nbRetry l' = nbRetry l + 1 \<and> \<not> bFinished l'"
proof -
  let ?f = "block_frame with_crc ctx (expectedBlkNumber l - 1) (pad_block ch)"
  have len: "length (pad_block ch) = block_size ch"
    using assms(3,4) by (intro length_pad_block) (simp add: rx_accepts_def)
  then have "length ?f = block_size ch + (if with_crc then 4 else 3)" by (simp add: length_block_frame)
  moreover have "LXMODEM_RECV_PREVIOUS_BLOCK =
      block_verdict with_crc (crc16 c) (expectedBlkNumber l) (block_size ch) ?f"
    using verdict_previous [of with_crc "crc16 c" "expectedBlkNumber l" "pad_block ch" ctx] len by simp
  ultimately show ?thesis
    using rx_refused_wire [OF assms(1-6), of ?f LXMODEM_RECV_PREVIOUS_BLOCK rest] assms(7)
    by (auto simp: tx_frame_def)
qed

text \<open>The contexts the witnesses use: checksum mode, on a wire.\<close>

definition demo :: "u8 list list \<Rightarrow> lmodem_buffer \<Rightarrow> wire modem_context" where
  "demo pieces rf = (lmodem_init (unset_context \<lparr>pending = [], sent = []\<rparr>) Lxmodem_128_with_chksum)\<lparr>blk_buffer :=
      \<lparr>line_buffer = replicate 132 0, line_current_size = 0, line_max_size = 132\<rparr>, ramfile := rf,
    getchar_cb := Some wire_getchar, putchar_cb := Some wire_putchar, world := \<lparr>pending = pieces, sent = []\<rparr>\<rparr>"

abbreviation demo_file :: lmodem_buffer where
  "demo_file \<equiv> \<lparr>ram_buffer = [7, 8, 9], ram_read_offset = 1, ram_write_offset = 3, ram_max_size = 3\<rparr>"

lemma demo_fields:
  "protocol (demo pieces rf) = XMODEM" "opts (demo pieces rf) = Lxmodem_128_with_chksum"
  "\<not> withCrc (demo pieces rf)" "ramfile (demo pieces rf) = rf" "crc_ok (demo pieces rf)"
  "line_buffer (blk_buffer (demo pieces rf)) = replicate 132 0"
  "getchar_cb (demo pieces rf) = Some wire_getchar" "putchar_cb (demo pieces rf) = Some wire_putchar"
  "world (demo pieces rf) = \<lparr>pending = pieces, sent = []\<rparr>"
  using lmodem_init_crc_ok [of "unset_context \<lparr>pending = [], sent = []\<rparr>" Lxmodem_128_with_chksum]
  by (simp_all add: demo_def lmodem_init_def memset_context_def crc_ok_def Let_def)

lemma demo_ready:
  "ram_wf rf \<Longrightarrow> rx_ready (demo pieces rf)" "ram_wf rf \<Longrightarrow> tx_ready (demo pieces rf)"
  "ram_wf demo_file" "[] \<notin> set pieces \<Longrightarrow> on_wire (demo pieces rf)"
  "tx_block_mode (demo pieces rf) = (128, False)"
  "incoming (world (demo pieces rf)) = concat pieces" "ramfile (demo pieces rf) = rf"
  "rx_accepts (demo pieces rf) False ctx 128" "lxmodem_preambule_char (demo pieces rf) = NAK"
  "lxmodem_decode_preambule (demo pieces rf) NAK"
  "sent (world (demo pieces rf)) = []" "pending (world (demo pieces rf)) = pieces"
  "crc_ok (demo pieces rf)"
  by (simp_all add: demo_fields rx_ready_def rx_line_need_def tx_ready_def tx_line_need_def
      tx_block_mode_def on_wire_def wire_wf_def incoming_def ram_wf_def rx_accepts_def block_trailer_def
      lxmodem_preambule_char_def lxmodem_decode_preambule_def fun_eq_iff)

definition demo_table :: crc16_context where
  "demo_table = crc16 (lmodem_init (unset_context \<lparr>pending = [], sent = []\<rparr>) Lxmodem_128_with_chksum)"

lemma demo_table_ready: "crc16_ready LXMODEM_CRC16_CCITT_POLYNOME demo_table"
  using lmodem_init_crc_ok [of "unset_context \<lparr>pending = [], sent = []\<rparr> :: wire modem_context" Lxmodem_128_with_chksum]
  by (simp add: demo_table_def crc_ok_def)

lemma demo_crc: "crc16 (demo pieces rf) = demo_table"
  by (simp add: demo_def demo_table_def)

lemma demo_unread: "ram_unread demo_file = [8, 9]"
  by (simp add: ram_unread_def ram_contents_def)

theorem duplicate_block_acknowledged_witness:
  "\<exists>l' c'. lxmodem_receive_step (rx_start\<lparr>expectedBlkNumber := 2\<rparr>)
      (demo [tx_frame False (crc16 (unset_context \<lparr>pending = [], sent = []\<rparr>)) 1 [0x41]] demo_file) = Some (l', c') \<and>
    sent (world c') = [ACK] \<and> ramfile c' = demo_file"
  using duplicate_block_acknowledged [of
      "demo [tx_frame False (crc16 (unset_context \<lparr>pending = [], sent = []\<rparr>)) 1 [0x41]] demo_file" False
      "crc16 (unset_context \<lparr>pending = [], sent = []\<rparr>)" 128 "[0x41]"
      "rx_start\<lparr>expectedBlkNumber := 2\<rparr>" "[]"]
  by (auto simp: demo_ready rx_start_def tx_frame_nonempty [THEN not_sym])

text \<open>
  C29: On a line that stays silent \<open>lxmodem_receive\<close> gives up after ten reads: it has sent its
  first character and two CAN, returns \<open>-1\<close>, and changed nothing else.
\<close>

theorem lxmodem_receive_silent_line:
  assumes "on_wire c" and "pending (world c) = []"
  shows "lxmodem_receive c = Some (-1, c\<lparr>world := (world c)
    \<lparr>sent := sent (world c) @ [lxmodem_preambule_char c, CAN, CAN]\<rparr>\<rparr>)"
proof -
  have p: "putchar_cb c = Some wire_putchar" using assms(1) by (simp add: on_wire_def)
  let ?c = "c\<lparr>world := wire_putchar (world c) [lxmodem_preambule_char c]\<rparr>"
  have "on_wire ?c" "pending (world ?c) = []" "\<not> bFinished rx_start" "nbRetry rx_start < 10"
    using assms by (simp_all add: on_wire_def rx_start_def)
  from rx_loop_silent [OF this] show ?thesis
    using preambule_returns [OF p] by (auto simp: lxmodem_receive_def)
qed

theorem lxmodem_receive_silent_line_witness:
  "\<exists>c'. lxmodem_receive (demo [] demo_file) = Some (-1, c') \<and> sent (world c') = [NAK, CAN, CAN]"
  using lxmodem_receive_silent_line [of "demo [] demo_file"]
  by (simp add: demo_ready demo_fields)

text \<open>
  C30: On a line that stays silent \<open>lxmodem_emit\<close> ends after ten reads, sends nothing, and returns
  0, the result of an empty transfer and not \<open>-1\<close>.
\<close>

theorem lxmodem_emit_silent_line:
  assumes "on_wire c" and "pending (world c) = []"
  shows "lxmodem_emit c = Some (0, c)"
  using wait_char_silent [of c 0] assms by (simp add: lxmodem_emit_def on_wire_def)

theorem lxmodem_emit_silent_line_witness:
  "lxmodem_emit (demo [] demo_file) = Some (0, demo [] demo_file)"
  by (rule lxmodem_emit_silent_line) (simp_all add: demo_ready)

text \<open>
  C18: A receiver that refuses the first block each time: the sender sends it ten times, byte for
  byte the same, then gives up with \<open>-1\<close>. Here the unread file is not empty, so the block is a
  data block with number 1.
\<close>

theorem send_data_blocks_gives_up:
  assumes "on_wire c" and "tx_ready c" and "tx_block_mode c = (d, with_crc)"
    and "ch = take (unat d) (ram_unread (ramfile c))" and "ch \<noteq> []"
    and "incoming (world c) = replicate 10 NAK @ rest"
  shows "\<exists>c'. lxmode_send_data_blocks c = Some (-1, c') \<and> incoming (world c') = rest \<and>
    sent (world c') = sent (world c) @ concat (replicate 10 (tx_frame with_crc (crc16 c) 1 ch))"
proof -
  let ?a = "tx_spec_start (ram_unread (ramfile c))"
  have ref: "tx_refines ?a tx_start c"
    by (simp add: tx_refines_def tx_spec_start_def tx_start_def)
  have inv: "tx_spec_inv (unat d) (ram_unread (ramfile c)) ?a"
    by (simp add: tx_spec_inv_def tx_spec_start_def outstanding_def)
  have a: "outcome ?a = Sending" "unat (fst (tx_block_mode c)) = unat d"
    "current (tx_offer (unat d) ?a) = Some ch" "10 - tries ?a = Suc 9" "acked ?a = []"
    using assms(3,4) by (simp_all add: tx_offer_def tx_spec_start_def)
  have ten: "Suc 9 = (10 :: nat)" by simp
  from tx_loop_naks [OF assms(1,2) ref a(1,2) inv a(3,4)] obtain l' c' where
    "send_data_blocks_loop tx_start c = Some (l', c')" "emittedBytes l' = -1" "incoming (world c') = rest"
    "sent (world c') = sent (world c) @ concat (replicate 10 (wire_of c (word_of_nat (length (acked ?a)) + 1) ch))"
    unfolding ten using assms(6) by blast
  moreover have "wire_of c (word_of_nat (length (acked ?a)) + 1) ch = tx_frame with_crc (crc16 c) 1 ch"
    using assms(3,5) a(5) by (simp add: tx_wire_def)
  ultimately show ?thesis by (intro exI [of _ c']) (simp add: lxmode_send_data_blocks_def)
qed

theorem send_data_blocks_gives_up_witness:
  "\<exists>c'. lxmode_send_data_blocks (demo [replicate 10 NAK] demo_file) = Some (-1, c') \<and>
    incoming (world c') = []"
  using send_data_blocks_gives_up [of "demo [replicate 10 NAK] demo_file" 128 False "[8, 9]" "[]"]
  by (auto simp: demo_ready demo_unread)

end
