(* ===== verification/Xmodem_Noise.thy ===== *)
theory Xmodem_Noise
  imports Xmodem_Link
begin

text \<open>
  XMODEM over a line that corrupts blocks: in every block the line may change a byte, up to nine
  times before the block arrives whole. The receiver refuses each corrupted block, the sender
  sends it again, and the transfer ends as over a perfect line.
\<close>

section \<open>The noise\<close>

text \<open>A hit: the place of the byte behind the SOH or STX, and the bits that are flipped.\<close>

type_synonym hit = "nat \<times> u8"

definition hit_frame :: "hit \<Rightarrow> u8 list \<Rightarrow> u8 list" where
  "hit_frame h f = f[Suc (fst h) := f ! Suc (fst h) XOR snd h]"

text \<open>The hits fit the block: inside it, and at least one bit is flipped.\<close>

definition hits_ok :: "bool \<Rightarrow> u8 list \<Rightarrow> hit list \<Rightarrow> bool" where
  "hits_ok with_crc ch hs \<longleftrightarrow>
     length hs < 10 \<and> (\<forall>(i, e) \<in> set hs. i < block_size ch + (if with_crc then 4 else 3) \<and> e \<noteq> 0)"

text \<open>What arrives: for each block the corrupted copies, then the good one; and the EOT.\<close>

fun noisy_stream ::
  "bool \<Rightarrow> crc16_context \<Rightarrow> u8 \<Rightarrow> (u8 list \<times> hit list) list \<Rightarrow> u8 list" where
  "noisy_stream with_crc ctx n [] = [EOT]"
| "noisy_stream with_crc ctx n ((ch, hs) # blocks) =
     concat (map (\<lambda>h. hit_frame h (tx_frame with_crc ctx n ch)) hs) @ tx_frame with_crc ctx n ch @
     noisy_stream with_crc ctx (n + 1) blocks"

text \<open>The receiver's answers to it: a NAK for each corrupted copy.\<close>

definition noise_answers :: "(u8 list \<times> hit list) list \<Rightarrow> nat list" where
  "noise_answers blocks = map (\<lambda>(ch, hs). length hs) blocks @ [0]"

lemma noise_answers_simps [simp]:
  "noise_answers [] = [0]" "noise_answers ((ch, hs) # blocks) = length hs # noise_answers blocks"
  by (simp_all add: noise_answers_def)

lemma length_noise_answers [simp]: "length (noise_answers blocks) = length blocks + 1"
  by (simp add: noise_answers_def)

lemma hit_frame_tx:
  "hit_frame (i, e) (tx_frame with_crc ctx n ch) = (if length ch \<le> 128 then SOH else STX) #
    (block_frame with_crc ctx n (pad_block ch))[i := block_frame with_crc ctx n (pad_block ch) ! i XOR e]"
  by (simp add: hit_frame_def tx_frame_def)

text \<open>The sender sends as many bytes as arrive: the line changes bytes, it loses none.\<close>

lemma length_noisy_stream:
  "length (noisy_stream with_crc ctx n blocks) =
    length (tx_repeats with_crc ctx n (map fst blocks) (noise_answers blocks))"
proof (induction blocks arbitrary: n)
  case (Cons b blocks)
  obtain ch hs where b: "b = (ch, hs)" by (cases b)
  have "length (concat (map (\<lambda>h. hit_frame h f) hs)) = length hs * length f" for f
    by (induction hs) (simp_all add: hit_frame_def)
  moreover have "length (concat (replicate k f)) = k * length f" for k and f :: "u8 list"
    by (induction k) simp_all
  ultimately show ?case using Cons.IH [of "n + 1"] b by simp
qed simp

section \<open>The receiver\<close>

lemma xor_neq: "(e :: u8) \<noteq> 0 \<Longrightarrow> x XOR e \<noteq> x"
  using word_xor_cancel_left [of x e 0] by simp

lemma rx_hit_wire:
  assumes wire: "on_wire c" and ready: "rx_ready c" and crc: "crc_ok c"
    and acc: "rx_accepts c with_crc ctx d" and ch: "length ch \<le> d"
    and run: "\<not> bFinished l" "nbRetry l < 9"
    and hit: "i < block_size ch + (if with_crc then 4 else 3)" "e \<noteq> 0"
    and inc: "incoming (world c) = hit_frame (i, e) (tx_frame with_crc ctx (expectedBlkNumber l) ch) @ rest"
  shows "\<exists>l' c'. lxmodem_receive_step l c = Some (l', c') \<and> same_setup c c' \<and> on_wire c' \<and> rx_ready c' \<and>
    ramfile c' = ramfile c \<and> sent (world c') = sent (world c) @ [NAK] \<and> incoming (world c') = rest \<and>
    expectedBlkNumber l' = expectedBlkNumber l \<and> receivedBytes l' = receivedBytes l \<and>
    nbRetry l' = nbRetry l + 1 \<and> \<not> bFinished l'"
proof -
  let ?f = "block_frame with_crc (crc16 c) (expectedBlkNumber l) (pad_block ch)"
  let ?g = "?f[i := ?f ! i XOR e]"
  have tr: "block_trailer with_crc ctx = block_trailer with_crc (crc16 c)"
    using acc unfolding rx_accepts_def by blast
  have len: "length (pad_block ch) = block_size ch"
    using acc ch by (intro length_pad_block) (simp add: rx_accepts_def)
  then have g: "length ?g = block_size ch + (if with_crc then 4 else 3)" by (simp add: length_block_frame)
  have st: "LXMODEM_RECV_ERROR =
      block_verdict with_crc (crc16 c) (expectedBlkNumber l) (block_size ch) ?g"
    using verdict_corrupted [OF crc, of i with_crc "expectedBlkNumber l" "pad_block ch" "?f ! i XOR e"]
      g hit len by (simp add: xor_neq)
  have "incoming (world c) = (if length ch \<le> 128 then SOH else STX) # ?g @ rest"
    using inc by (simp add: hit_frame_tx block_frame_def tr)
  from rx_refused_wire [OF wire ready acc ch run g st _ this] show ?thesis by simp
qed

text \<open>All the corrupted copies of a block.\<close>

lemma rx_hits_wire:
  "on_wire c \<Longrightarrow> rx_ready c \<Longrightarrow> crc_ok c \<Longrightarrow> rx_accepts c with_crc ctx d \<Longrightarrow> length ch \<le> d \<Longrightarrow>
    \<not> bFinished l \<Longrightarrow> nbRetry l + length hs < 10 \<Longrightarrow>
    \<forall>(i, e) \<in> set hs. i < block_size ch + (if with_crc then 4 else 3) \<and> e \<noteq> 0 \<Longrightarrow>
    incoming (world c) =
      concat (map (\<lambda>h. hit_frame h (tx_frame with_crc ctx (expectedBlkNumber l) ch)) hs) @ rest \<Longrightarrow>
    \<exists>l' c'. lxmodem_receive_loop l c = lxmodem_receive_loop l' c' \<and> same_setup c c' \<and> on_wire c' \<and>
      rx_ready c' \<and> ramfile c' = ramfile c \<and> sent (world c') = sent (world c) @ replicate (length hs) NAK \<and>
      incoming (world c') = rest \<and> expectedBlkNumber l' = expectedBlkNumber l \<and>
      receivedBytes l' = receivedBytes l \<and> \<not> bFinished l'"
proof (induction hs arbitrary: l c)
  case Nil
  then show ?case by (intro exI [of _ l] exI [of _ c]) simp
next
  case (Cons h hs)
  obtain i e where h: "h = (i, e)" by (cases h)
  have "incoming (world c) = hit_frame (i, e) (tx_frame with_crc ctx (expectedBlkNumber l) ch) @
      (concat (map (\<lambda>h. hit_frame h (tx_frame with_crc ctx (expectedBlkNumber l) ch)) hs) @ rest)"
    using Cons.prems(9) h by simp
  moreover have "nbRetry l < 9" "i < block_size ch + (if with_crc then 4 else 3)" "e \<noteq> 0"
    using Cons.prems(7,8) h by auto
  ultimately obtain l1 c1 where step: "lxmodem_receive_step l c = Some (l1, c1)" and same: "same_setup c c1"
    and c1: "on_wire c1" "rx_ready c1" "ramfile c1 = ramfile c" "sent (world c1) = sent (world c) @ [NAK]"
      "incoming (world c1) =
        concat (map (\<lambda>h. hit_frame h (tx_frame with_crc ctx (expectedBlkNumber l) ch)) hs) @ rest"
    and l1: "expectedBlkNumber l1 = expectedBlkNumber l" "receivedBytes l1 = receivedBytes l"
      "nbRetry l1 = nbRetry l + 1" "\<not> bFinished l1"
    using rx_hit_wire [OF Cons.prems(1-6)] by blast
  have loop: "lxmodem_receive_loop l c = lxmodem_receive_loop l1 c1"
    using step Cons.prems(6) by (simp add: lxmodem_receive_loop.simps [of l c])
  have "crc_ok c1" "rx_accepts c1 with_crc ctx d" "nbRetry l1 + length hs < 10"
    "\<forall>(i, e) \<in> set hs. i < block_size ch + (if with_crc then 4 else 3) \<and> e \<noteq> 0"
    using Cons.prems(3,4,7,8) rx_accepts_same_setup [OF same] same l1(3)
    by (simp_all add: crc_ok_def same_setup_def)
  from Cons.IH [OF c1(1,2) this(1,2) Cons.prems(5) l1(4) this(3,4)] c1(5) l1(1) obtain l' c' where
    "lxmodem_receive_loop l1 c1 = lxmodem_receive_loop l' c'" "same_setup c1 c'" "on_wire c'" "rx_ready c'"
    "ramfile c' = ramfile c1" "sent (world c') = sent (world c1) @ replicate (length hs) NAK"
    "incoming (world c') = rest" "expectedBlkNumber l' = expectedBlkNumber l1"
    "receivedBytes l' = receivedBytes l1" "\<not> bFinished l'" by auto
  with loop c1 l1 same_setup_trans [OF same] show ?case
    by (intro exI [of _ l'] exI [of _ c']) simp
qed

lemma rx_loop_noisy:
  "on_wire c \<Longrightarrow> rx_ready c \<Longrightarrow> crc_ok c \<Longrightarrow> rx_accepts c with_crc ctx d \<Longrightarrow>
    \<forall>(ch, hs) \<in> set blocks. length ch \<le> d \<and> hits_ok with_crc ch hs \<Longrightarrow>
    sum_list (map (\<lambda>b. block_size (fst b)) blocks) < ram_room (ramfile c) \<Longrightarrow> \<not> bFinished l \<Longrightarrow> nbRetry l = 0 \<Longrightarrow>
    incoming (world c) = noisy_stream with_crc ctx (expectedBlkNumber l) blocks @ rest \<Longrightarrow>
    \<exists>l' c'. lxmodem_receive_loop l c = Some (l', c') \<and> same_setup c c' \<and> on_wire c' \<and>
      receivedBytes l' = receivedBytes l + word_of_nat (sum_list (map (\<lambda>b. block_size (fst b)) blocks)) \<and>
      ram_contents (ramfile c') = ram_contents (ramfile c) @ concat (map (\<lambda>b. pad_block (fst b)) blocks) \<and>
      incoming (world c') = rest \<and> sent (world c') = sent (world c) @ answers (noise_answers blocks)"
proof (induction blocks arbitrary: l c)
  case Nil
  with rx_loop_wire [of c with_crc ctx d "[]" l rest] show ?case by simp
next
  case (Cons b blocks)
  obtain ch hs where b: "b = (ch, hs)" by (cases b)
  have ch: "length ch \<le> d" and hs: "nbRetry l + length hs < 10"
    "\<forall>(i, e) \<in> set hs. i < block_size ch + (if with_crc then 4 else 3) \<and> e \<noteq> 0"
    using Cons.prems(5,8) b by (auto simp: hits_ok_def)
  have "incoming (world c) =
      concat (map (\<lambda>h. hit_frame h (tx_frame with_crc ctx (expectedBlkNumber l) ch)) hs) @
      (tx_frame with_crc ctx (expectedBlkNumber l) ch @
       noisy_stream with_crc ctx (expectedBlkNumber l + 1) blocks @ rest)"
    using Cons.prems(9) b by simp
  from rx_hits_wire [OF Cons.prems(1-4) ch Cons.prems(7) hs this] obtain l1 c1 where
    loop: "lxmodem_receive_loop l c = lxmodem_receive_loop l1 c1" and same: "same_setup c c1"
    and c1: "on_wire c1" "rx_ready c1" "ramfile c1 = ramfile c"
      "sent (world c1) = sent (world c) @ replicate (length hs) NAK"
      "incoming (world c1) = tx_frame with_crc ctx (expectedBlkNumber l1) ch @
        noisy_stream with_crc ctx (expectedBlkNumber l1 + 1) blocks @ rest"
    and l1: "expectedBlkNumber l1 = expectedBlkNumber l" "receivedBytes l1 = receivedBytes l" "\<not> bFinished l1"
    by auto
  have acc1: "rx_accepts c1 with_crc ctx d" using rx_accepts_same_setup [OF same] Cons.prems(4) by simp
  have room: "block_size ch < ram_room (ramfile c1)" using Cons.prems(6) b c1(3) by simp
  let ?l = "stored_locals (l1\<lparr>canCharReceived := 0, blksize := word_of_nat (block_size ch)\<rparr>)"
  obtain c2 where step: "lxmodem_receive_step l1 c1 = Some (?l, c2)" and same2: "same_setup c1 c2"
    and c2: "on_wire c2" "rx_ready c2" "ram_contents (ramfile c2) = ram_contents (ramfile c1) @ pad_block ch"
      "ram_room (ramfile c2) = ram_room (ramfile c1) - block_size ch"
      "incoming (world c2) = noisy_stream with_crc ctx (expectedBlkNumber l1 + 1) blocks @ rest"
      "sent (world c2) = sent (world c1) @ [ACK]"
    using rx_round_wire [OF c1(1,2) acc1 ch room c1(5)] by auto
  have loop2: "lxmodem_receive_loop l1 c1 = lxmodem_receive_loop ?l c2"
    using step l1(3) by (simp add: lxmodem_receive_loop.simps [of l1 c1])
  note both = same_setup_trans [OF same same2]
  have "crc_ok c2" "rx_accepts c2 with_crc ctx d"
    "\<forall>(ch, hs) \<in> set blocks. length ch \<le> d \<and> hits_ok with_crc ch hs"
    "sum_list (map (\<lambda>b. block_size (fst b)) blocks) < ram_room (ramfile c2)" "\<not> bFinished ?l" "nbRetry ?l = 0"
    using Cons.prems(3-6) rx_accepts_same_setup [OF both] both b c1(3) c2(4) l1(3)
    by (simp_all add: crc_ok_def same_setup_def)
  from Cons.IH [OF c2(1,2) this] c2(5) obtain l' c' where
    "lxmodem_receive_loop ?l c2 = Some (l', c')" "same_setup c2 c'" "on_wire c'"
    "receivedBytes l' = receivedBytes ?l + word_of_nat (sum_list (map (\<lambda>b. block_size (fst b)) blocks))"
    "ram_contents (ramfile c') = ram_contents (ramfile c2) @ concat (map (\<lambda>b. pad_block (fst b)) blocks)"
    "incoming (world c') = rest" "sent (world c') = sent (world c2) @ answers (noise_answers blocks)" by auto
  with loop loop2 same_setup_trans [OF both] b c1 c2 l1 show ?case
    by (intro exI [of _ l'] exI [of _ c']) (simp add: answers_def)
qed

lemma receive_noisy:
  assumes wire: "on_wire c" and ready: "rx_ready c" and crc: "crc_ok c" and acc: "rx_accepts c with_crc ctx d"
    and blocks: "\<forall>(ch, hs) \<in> set blocks. length ch \<le> d \<and> hits_ok with_crc ch hs"
    and room: "sum_list (map (\<lambda>b. block_size (fst b)) blocks) < ram_room (ramfile c)"
    and inc: "incoming (world c) = noisy_stream with_crc ctx 1 blocks @ rest"
  shows "\<exists>c'. lxmodem_receive c =
      Some (word_of_nat (sum_list (map (\<lambda>b. block_size (fst b)) blocks)), c') \<and>
    ram_contents (ramfile c') = ram_contents (ramfile c) @ concat (map (\<lambda>b. pad_block (fst b)) blocks) \<and>
    incoming (world c') = rest \<and>
    sent (world c') = sent (world c) @ lxmodem_preambule_char c # answers (noise_answers blocks)"
proof -
  have p: "putchar_cb c = Some wire_putchar" using wire by (simp add: on_wire_def)
  let ?c = "c\<lparr>world := wire_putchar (world c) [lxmodem_preambule_char c]\<rparr>"
  have pre: "lxmodem_build_and_send_preambule c = Some ?c" using preambule_returns [OF p] by simp
  have same: "same_setup c ?c" by simp
  have "on_wire ?c" "rx_ready ?c" "crc_ok ?c" "rx_accepts ?c with_crc ctx d" "\<not> bFinished rx_start"
    "nbRetry rx_start = 0" "sum_list (map (\<lambda>b. block_size (fst b)) blocks) < ram_room (ramfile ?c)"
    "incoming (world ?c) = noisy_stream with_crc ctx (expectedBlkNumber rx_start) blocks @ rest"
    using wire ready room inc rx_accepts_same_setup [OF same] acc crc
    by (simp_all add: on_wire_def rx_start_def crc_ok_def)
  from rx_loop_noisy [OF this(1-4) blocks this(7,5,6,8)] obtain l' c' where
    "lxmodem_receive_loop rx_start ?c = Some (l', c')"
    "receivedBytes l' = receivedBytes rx_start + word_of_nat (sum_list (map (\<lambda>b. block_size (fst b)) blocks))"
    "ram_contents (ramfile c') = ram_contents (ramfile ?c) @ concat (map (\<lambda>b. pad_block (fst b)) blocks)"
    "incoming (world c') = rest" "sent (world c') = sent (world ?c) @ answers (noise_answers blocks)" by blast
  with pre show ?thesis
    by (intro exI [of _ c']) (simp add: lxmodem_receive_def rx_start_def)
qed

section \<open>Properties\<close>

text \<open>
  C17: Liveness of the sender. A receiver that accepts every block, and the EOT, within ten tries
  (\<open>k < 10\<close> refusals each, in any pattern) gets the whole file: the sender repeats each refused block
  byte for byte as often as it is refused, goes on with the next one once it is acknowledged, and
  returns the padded size of the file.
\<close>

theorem sender_perseveres:
  assumes "on_wire c" and "tx_ready c" and "tx_block_mode c = (d, with_crc)"
    and "lxmodem_decode_preambule c x" and "chs = chunks (unat d) (ram_unread (ramfile c))"
    and "length ks = length chs + 1" and "\<forall>k \<in> set ks. k < 10"
    and "incoming (world c) = x # answers ks @ rest"
  shows "\<exists>c'. lxmodem_emit c = Some (word_of_nat (sum_list (map block_size chs)), c') \<and>
    incoming (world c') = rest \<and>
    sent (world c') = sent (world c) @ tx_repeats with_crc (crc16 c) 1 chs ks"
  using emit_answers [OF assms(1,2,3,5,6,7,8,4)] by blast

lemma demo_chunks: "[[8, 9]] = chunks (unat (128 :: u32)) (ram_unread (ramfile (demo pieces demo_file)))"
proof -
  have "chunks 128 [8, 9 :: u8] = [[8, 9]]" "unat (128 :: u32) = 128" by (simp_all add: chunks_next)
  then show ?thesis unfolding demo_ready(7) demo_unread by (simp only:)
qed

theorem sender_perseveres_witness:
  "\<exists>c' f. lxmodem_emit (demo [[NAK, NAK, NAK], [ACK, NAK, ACK]] demo_file) = Some (128, c') \<and>
    f = tx_frame False demo_table 1 [8, 9] \<and> sent (world c') = f @ f @ f @ [EOT, EOT]"
proof -
  let ?c = "demo [[NAK, NAK, NAK], [ACK, NAK, ACK]] demo_file"
  have ks: "answers [2, 1] = [NAK, NAK, ACK, NAK, ACK]" by (simp add: numeral_2_eq_2)
  have inc: "incoming (world ?c) = NAK # answers [2, 1] @ []"
    unfolding ks by (simp add: demo_ready(6))
  from sender_perseveres [OF demo_ready(4) demo_ready(2,5,10) demo_chunks _ _ inc] show ?thesis
    by (auto simp: demo_ready(3,11) demo_crc block_size_def numeral_2_eq_2)
qed

text \<open>
  C3: A transfer over a noisy line. In each block the line flips bits of one byte (number,
  complement, data, checksum or CRC) in up to nine copies before one arrives whole. Both sides
  return the same size; the receiver has refused exactly the corrupted copies, the sender has
  repeated exactly these, and the received file is the sent one followed by less than a block of
  SUB. What the sender sends is what arrives, but for the flipped bits, and what it reads is what
  the receiver answers.
\<close>

theorem noisy_transfer:
  assumes "on_wire s" and "tx_ready s" and "tx_block_mode s = (d, with_crc)"
    and "lxmodem_decode_preambule s (lxmodem_preambule_char r)"
    and "on_wire r" and "rx_ready r" and "crc_ok r" and "rx_accepts r with_crc (crc16 s) (unat d)"
    and "ram_contents (ramfile r) = []"
    and "map fst blocks = chunks (unat d) (ram_unread (ramfile s))"
    and "\<forall>(ch, hs) \<in> set blocks. hits_ok with_crc ch hs"
    and "sum_list (map (\<lambda>b. block_size (fst b)) blocks) < ram_room (ramfile r)"
    and "incoming (world s) = lxmodem_preambule_char r # answers (noise_answers blocks) @ rest_s"
    and "incoming (world r) = noisy_stream with_crc (crc16 s) 1 blocks @ rest_r"
  shows "\<exists>n s' r' k. lxmodem_emit s = Some (n, s') \<and> lxmodem_receive r = Some (n, r') \<and>
    ram_contents (ramfile r') = ram_unread (ramfile s) @ replicate k SUB \<and> k < 1024 \<and>
    incoming (world s') = rest_s \<and> incoming (world r') = rest_r \<and>
    sent (world r') = sent (world r) @ lxmodem_preambule_char r # answers (noise_answers blocks) \<and>
    sent (world s') = sent (world s) @
      tx_repeats with_crc (crc16 s) 1 (map fst blocks) (noise_answers blocks) \<and>
    length (noisy_stream with_crc (crc16 s) 1 blocks) =
      length (tx_repeats with_crc (crc16 s) 1 (map fst blocks) (noise_answers blocks))"
proof -
  let ?chs = "map fst blocks"
  have d: "unat d = 128 \<or> unat d = 1024" using tx_mode_cases [of s] assms(3) by auto
  have ks: "length (noise_answers blocks) = length ?chs + 1" "\<forall>k \<in> set (noise_answers blocks). k < 10"
    using assms(11) by (auto simp: noise_answers_def hits_ok_def)
  have sizes: "map block_size ?chs = map (\<lambda>b. block_size (fst b)) blocks"
    "map pad_block ?chs = map (\<lambda>b. pad_block (fst b)) blocks" by simp_all
  have ok: "\<forall>(ch, hs) \<in> set blocks. length ch \<le> unat d \<and> hits_ok with_crc ch hs"
    using assms(11) chunks_set [of _ "unat d" "ram_unread (ramfile s)"] unfolding assms(10) [symmetric]
    by fastforce
  obtain k where "k < 1024" "concat (map pad_block ?chs) = ram_unread (ramfile s) @ replicate k SUB"
    using concat_pad_chunks [OF d] unfolding assms(10) by blast
  with emit_answers [OF assms(1-3,10) ks assms(13,4)]
    receive_noisy [OF assms(5-8) ok assms(12,14)] sizes assms(9) show ?thesis
    by (auto simp: length_noisy_stream comp_def)
qed

theorem noisy_transfer_witness:
  "\<exists>n s' r' k.
    lxmodem_emit (demo [[NAK], [NAK, NAK], [ACK, ACK]] demo_file) = Some (n, s') \<and>
    lxmodem_receive (demo [noisy_stream False demo_table 1 [([8, 9], [(0, 1), (130, 0x80)])]]
      (lmodem_buffer_init demo_file (replicate 200 0) 200)) = Some (n, r') \<and>
    ram_contents (ramfile r') = [8, 9] @ replicate k SUB \<and> sent (world r') = [NAK, NAK, NAK, ACK, ACK]"
proof -
  let ?s = "demo [[NAK], [NAK, NAK], [ACK, ACK]] demo_file"
  let ?b = "[([8, 9], [(0, 1), (130, 0x80)])] :: (u8 list \<times> hit list) list"
  let ?rf = "lmodem_buffer_init demo_file (replicate 200 0) 200"
  let ?n = "noisy_stream False (crc16 ?s) 1 ?b"
  let ?r = "demo [?n] ?rf"
  have rf: "ram_wf ?rf" "ram_contents ?rf = []" "ram_room ?rf = 200"
    by (rule ram_wf_init) simp_all
  have ne: "[] \<notin> set [?n]" "[] \<notin> set [[NAK], [NAK, NAK], [ACK, ACK]]" by (simp_all add: hit_frame_def)
  have ks: "answers (noise_answers ?b) = [NAK, NAK, ACK, ACK]" by simp
  have s: "lxmodem_decode_preambule ?s (lxmodem_preambule_char ?r)"
    "incoming (world ?s) = lxmodem_preambule_char ?r # answers (noise_answers ?b) @ []"
    unfolding ks demo_ready(6,9) by (rule demo_ready(10)) simp
  have r: "ram_contents (ramfile ?r) = []" "map fst ?b = chunks (unat (128 :: u32)) (ram_unread (ramfile ?s))"
    "\<forall>(ch, hs) \<in> set ?b. hits_ok False ch hs"
    "sum_list (map (\<lambda>b. block_size (fst b)) ?b) < ram_room (ramfile ?r)"
    "incoming (world ?r) = noisy_stream False (crc16 ?s) 1 ?b @ []" "rx_accepts ?r False (crc16 ?s) (unat (128 :: u32))"
    subgoal by (simp only: demo_ready(7) rf)
    subgoal by (simp only: list.map fst_conv demo_chunks)
    subgoal by (simp add: hits_ok_def block_size_def)
    subgoal unfolding demo_ready(7) rf by (simp add: block_size_def)
    subgoal by (simp only: demo_ready(6) concat.simps append_Nil2)
    subgoal by simp (rule demo_ready(8))
    done
  from noisy_transfer [OF demo_ready(4) [OF ne(2)] demo_ready(2) [OF demo_ready(3)] demo_ready(5) s(1)
      demo_ready(4) [OF ne(1)] demo_ready(1) [OF rf(1)] demo_ready(13) r(6,1-4) s(2) r(5)]
  show ?thesis unfolding ks demo_ready(9,11) demo_crc by (auto simp: demo_ready(7) demo_unread)
qed

end
