(* ===== verification/Ymodem_Rx.thy ===== *)
theory Ymodem_Rx
  imports Rx
begin

text \<open>
  \<open>src/lmodem_rx.c\<close>, the YMODEM part: block 0 with the file's name and metadata
  (\<open>lymodem_receive_block0\<close>, \<open>lymodem_decode_block0\<close>, \<open>lymodem_get_meta_data\<close>), the refusal of
  a second file (\<open>lymodem_block_next_file\<close>), \<open>lymodem_receive\<close> and the entry point
  \<open>lmodem_receive\<close>. Pointers into the line buffer are indices; a read or write through one that
  has left the buffer is \<open>None\<close>, and so is a wait that never ends.
\<close>

section \<open>Metadata fields\<close>

text \<open>\<open>lymodem_getValue\<close>: the value and \<open>*isValid\<close>. \<open>s\<close> is the object from \<open>pString\<close> on.\<close>

definition lymodem_getValue :: "u8 list \<Rightarrow> nat \<Rightarrow> (u32 \<times> bool) option" where
  "lymodem_getValue s mode = do {
     (r, pEnd) \<leftarrow> strtoul mode s;
     x \<leftarrow> mem_read s pEnd;
     Some (ucast r, x = 0)
   }"

text \<open>The scan of \<open>lymodem_get_next_meta_data_string\<close> for the end of a field.\<close>

function field_end :: "u8 list \<Rightarrow> nat \<Rightarrow> nat \<Rightarrow> nat option" where
  "field_end buf pCursor pEnd = do {
     x \<leftarrow> mem_read buf pCursor;
     if x \<noteq> 0x20 \<and> x \<noteq> 0 \<and> pCursor < pEnd then field_end buf (pCursor + 1) pEnd
     else Some pCursor
   }"
  by pat_completeness auto
termination
  by (relation "measure (\<lambda>(buf, p, pEnd). pEnd - p)") auto

declare field_end.simps [simp del]

text \<open>The field's start (\<open>None\<close> for NULL), the buffer, and \<open>*pString\<close>.\<close>

definition lymodem_get_next_meta_data_string ::
  "u8 list \<Rightarrow> nat \<Rightarrow> nat \<Rightarrow> (nat option \<times> u8 list \<times> nat) option" where
  "lymodem_get_next_meta_data_string buf pString pEnd = do {
     x \<leftarrow> mem_read buf pString;
     if x = 0 \<or> pString \<ge> pEnd then Some (None, buf, pString)
     else do {
       pCursor \<leftarrow> field_end buf pString pEnd;
       buf \<leftarrow> mem_write buf pCursor 0;
       Some (Some pString, buf, pCursor + 1)
     }
   }"

text \<open>The \<open>switch (nbFields)\<close>: a field is stored, and marked, even if it is not a number.\<close>

definition lymodem_store_field ::
  "nat \<Rightarrow> u8 list \<Rightarrow> lmodem_file_characteristics \<Rightarrow> (bool \<times> lmodem_file_characteristics) option" where
  "lymodem_store_field nbFields pData fd =
     (if nbFields = 0 then do {
        (v, ok) \<leftarrow> lymodem_getValue pData 10;
        Some (ok, fd\<lparr>file_size := v, valid := valid fd OR LMODEM_METADATA_FILESIZE_VALID\<rparr>)
      } else if nbFields = 1 then do {
        (v, ok) \<leftarrow> lymodem_getValue pData 8;
        Some (ok, fd\<lparr>modif_date := v, valid := valid fd OR LMODEM_METADATA_MODIFDATE_VALID\<rparr>)
      } else if nbFields = 2 then do {
        (v, ok) \<leftarrow> lymodem_getValue pData 8;
        Some (ok, fd\<lparr>permission := ucast v AND NOT 0x8000,
          valid := valid fd OR LMODEM_METADATA_PERMISSION_VALID\<rparr>)
      } else do {
        (v, ok) \<leftarrow> lymodem_getValue pData 8;
        Some (ok, fd\<lparr>serial_number := v, valid := valid fd OR LMODEM_METADATA_SERIAL_VALID\<rparr>)
      })"

text \<open>
  \<open>while (nbFields < LMODEM_METADATA_NB - 1)\<close>, four rounds at most, as recursion over the
  fields still to come.
\<close>

fun lymodem_meta_data_fields ::
  "nat list \<Rightarrow> u8 list \<Rightarrow> nat \<Rightarrow> nat \<Rightarrow> lmodem_file_characteristics \<Rightarrow>
    (bool \<times> u8 list \<times> lmodem_file_characteristics) option" where
  "lymodem_meta_data_fields [] buf pString pEnd fd = Some (True, buf, fd)"
| "lymodem_meta_data_fields (nbFields # nexts) buf pString pEnd fd = do {
     (pData, buf, pString) \<leftarrow> lymodem_get_next_meta_data_string buf pString pEnd;
     (case pData of
        None \<Rightarrow> Some (True, buf, fd)
      | Some p \<Rightarrow> do {
          (ok, fd) \<leftarrow> lymodem_store_field nbFields (drop p buf) fd;
          if ok then lymodem_meta_data_fields nexts buf pString pEnd fd else Some (False, buf, fd)
        })
   }"

text \<open>\<open>while ((*pString == 0) && (pString < pEndString)) pString++;\<close>\<close>

function skip_zeros :: "u8 list \<Rightarrow> nat \<Rightarrow> nat \<Rightarrow> nat option" where
  "skip_zeros buf pString pEnd = do {
     x \<leftarrow> mem_read buf pString;
     if x = 0 \<and> pString < pEnd then skip_zeros buf (pString + 1) pEnd else Some pString
   }"
  by pat_completeness auto
termination
  by (relation "measure (\<lambda>(buf, p, pEnd). pEnd - p)") auto

declare skip_zeros.simps [simp del]

definition lymodem_get_meta_data :: "'w modem_context \<Rightarrow> (bool \<times> 'w modem_context) option" where
  "lymodem_get_meta_data c = do {
     name \<leftarrow> filename (file_data c);
     len \<leftarrow> strlen name;
     let pString = 2 + len;
     let pEnd = pString + unat (line_max_size (blk_buffer c));
     let buf = line_buffer (blk_buffer c);
     pString \<leftarrow> skip_zeros buf pString pEnd;
     (bResult, buf, fd) \<leftarrow>
       (if pString < pEnd then lymodem_meta_data_fields [0, 1, 2, 3] buf pString pEnd (file_data c)
        else Some (True, buf, file_data c));
     Some (bResult, c\<lparr>blk_buffer := (blk_buffer c)\<lparr>line_buffer := buf\<rparr>, file_data := fd\<rparr>)
   }"

definition lmodem_metadata_clean ::
  "lmodem_file_characteristics \<Rightarrow> lmodem_file_characteristics option" where
  "lmodem_metadata_clean fd = do {
     name \<leftarrow> filename fd;
     name \<leftarrow> mem_write name 0 0;
     Some (fd\<lparr>filename := Some name, modif_date := 0, permission := 0, serial_number := 0,
       file_size := 0, valid := 0\<rparr>)
   }"

definition lymodem_decode_block0 :: "'w modem_context \<Rightarrow> (bool \<times> 'w modem_context) option" where
  "lymodem_decode_block0 c = do {
     fd \<leftarrow> lmodem_metadata_clean (file_data c);
     let c = c\<lparr>file_data := fd\<rparr>;
     x \<leftarrow> mem_read (line_buffer (blk_buffer c)) 2;
     if x = 0 then Some (False, c)
     else do {
       name \<leftarrow> filename fd;
       name \<leftarrow> strncpy name 0 (drop 2 (line_buffer (blk_buffer c))) (unat (filename_size fd - 1));
       name \<leftarrow> mem_write name (unat (filename_size fd - 1)) 0;
       lymodem_get_meta_data
         (c\<lparr>file_data := fd\<lparr>filename := Some name,
            valid := valid fd OR LMODEM_METADATA_FILENAME_VALID\<rparr>\<rparr>)
     }
   }"

section \<open>Receiving\<close>

text \<open>
  The loop of \<open>lymodem_receive_block0\<close>: a read that fails is not counted, so on a silent line
  it has no value.
\<close>

partial_function (option) lymodem_receive_block0_loop ::
  "'w modem_context \<Rightarrow> u32 \<Rightarrow> nat \<Rightarrow> (lxmodem_reception_status \<times> 'w modem_context) option" where
  "lymodem_receive_block0_loop c blksz n = do {
     (bReceived, c) \<leftarrow> lmodem_getchar_block c (2 + blksz + 2);
     if bReceived then do {
       rxStatus \<leftarrow> lxmodem_check_block_no_and_crc c 0 blksz;
       c \<leftarrow> lxmodem_build_and_send_reply c rxStatus;
       if rxStatus = LXMODEM_RECV_OK then Some (rxStatus, c)
       else if n + 1 \<ge> 10 then do {
         c \<leftarrow> lxmodem_build_and_send_cancel c;
         Some (rxStatus, c)
       } else lymodem_receive_block0_loop c blksz (n + 1)
     } else lymodem_receive_block0_loop c blksz n
   }"

definition lymodem_receive_block0 ::
  "'w modem_context \<Rightarrow> u32 \<Rightarrow> (lxmodem_reception_status \<times> 'w modem_context) option" where
  "lymodem_receive_block0 c blksz = lymodem_receive_block0_loop c blksz 0"

text \<open>The wait for the start of block 0 in \<open>lymodem_receive\<close>; any other byte ends it.\<close>

function lymodem_wait_block0 ::
  "'w modem_context \<Rightarrow> nat \<Rightarrow> (lxmodem_reception_status \<times> 'w modem_context) option" where
  "lymodem_wait_block0 c timeout =
     (if timeout < 10 then do {
        (bReceived, c) \<leftarrow> lmodem_getchar_byte c;
        (case bReceived of
           Some startBlock0 \<Rightarrow>
             if startBlock0 = SOH then lymodem_receive_block0 c 128
             else if startBlock0 = STX then lymodem_receive_block0 c 1024
             else Some (LXMODEM_RECV_ERROR, c)
         | None \<Rightarrow> lymodem_wait_block0 c (timeout + 1))
      } else Some (LXMODEM_RECV_ERROR, c))"
  by pat_completeness auto
termination
  by (relation "measure (\<lambda>(c, timeout). 10 - timeout)") auto

declare lymodem_wait_block0.simps [simp del]

text \<open>The loop of \<open>lymodem_block_next_file\<close>.\<close>

function lymodem_block_next_file_loop ::
  "'w modem_context \<Rightarrow> nat \<Rightarrow> 'w modem_context option" where
  "lymodem_block_next_file_loop c timeout =
     (if timeout < 10 then do {
        (bReceived, c) \<leftarrow> lmodem_getchar_byte c;
        (case bReceived of
           None \<Rightarrow> lymodem_block_next_file_loop c (timeout + 1)
         | Some startBlock0 \<Rightarrow> do {
             (bReceived, c) \<leftarrow>
               (if startBlock0 = SOH then lmodem_getchar_block c (128 + 2 + 2)
                else if startBlock0 = STX then lmodem_getchar_block c (1024 + 2 + 2)
                else Some (True, c));
             if bReceived then do {
               x \<leftarrow> mem_read (line_buffer (blk_buffer c)) 2;
               if x = 0 then lxmodem_build_and_send_reply c LXMODEM_RECV_OK
               else lxmodem_build_and_send_cancel c
             } else lymodem_block_next_file_loop c (timeout + 1)
           })
      } else Some c)"
  by pat_completeness auto
termination
  by (relation "measure (\<lambda>(c, timeout). 10 - timeout)") auto

declare lymodem_block_next_file_loop.simps [simp del]

definition lymodem_block_next_file :: "'w modem_context \<Rightarrow> 'w modem_context option" where
  "lymodem_block_next_file c = do {
     c \<leftarrow> lxmodem_build_and_send_preambule c;
     lymodem_block_next_file_loop c 0
   }"

text \<open>\<open>receivedBytes\<close> is unsigned, so \<open>receivedBytes > 0\<close> also holds of \<open>-1\<close>.\<close>

definition lymodem_receive :: "'w modem_context \<Rightarrow> (u32 \<times> 'w modem_context) option" where
  "lymodem_receive c = do {
     c \<leftarrow> lxmodem_build_and_send_preambule c;
     (rxStatus, c) \<leftarrow> lymodem_wait_block0 c 0;
     (receivedBytes, c) \<leftarrow>
       (if rxStatus = LXMODEM_RECV_OK then do {
          (bBlock0Ok, c) \<leftarrow> lymodem_decode_block0 c;
          if bBlock0Ok then do {
            (receivedBytes, c) \<leftarrow> lxmodem_receive c;
            c \<leftarrow> lymodem_block_next_file c;
            Some (receivedBytes, c)
          } else Some (-1, c)
        } else Some (-1, c));
     Some (receivedBytes,
       (if receivedBytes > 0 \<and>
           valid (file_data c) AND LMODEM_METADATA_FILESIZE_VALID = LMODEM_METADATA_FILESIZE_VALID
        then c\<lparr>ramfile := snd (lmodem_buffer_set_write_offset (ramfile c) (file_size (file_data c)))\<rparr>
        else c))
   }"

definition lmodem_receive :: "'w modem_context \<Rightarrow> lmodem_protocol \<Rightarrow> (u32 \<times> 'w modem_context) option" where
  "lmodem_receive c p =
     (let c = c\<lparr>protocol := p\<rparr>
      in case p of XMODEM \<Rightarrow> lxmodem_receive c | YMODEM \<Rightarrow> lymodem_receive c)"

section \<open>Reading a block 0\<close>

lemma mem_read_mid: "i = length pre \<Longrightarrow> mem_read (pre @ x # rest) i = Some x"
  by (simp add: mem_read_def)

lemma mem_write_mid: "i = length pre \<Longrightarrow> mem_write (pre @ x # rest) i y = Some (pre @ y # rest)"
  by (simp add: mem_write_def)

lemma field_end_at:
  assumes "\<forall>x \<in> set f. x \<noteq> 0x20 \<and> x \<noteq> 0" and "sep = 0x20 \<or> sep = 0"
    and "length pre + length f \<le> pEnd"
  shows "field_end (pre @ f @ sep # rest) (length pre) pEnd = Some (length pre + length f)"
  using assms
proof (induction f arbitrary: pre)
  case Nil
  then show ?case
    using mem_read_mid [of "length pre" pre sep rest] by (subst field_end.simps) auto
next
  case (Cons x f)
  have "mem_read (pre @ (x # f) @ sep # rest) (length pre) = Some x"
    using mem_read_mid [of "length pre" pre x "f @ sep # rest"] by simp
  with Cons.prems have "field_end (pre @ (x # f) @ sep # rest) (length pre) pEnd =
      field_end (pre @ (x # f) @ sep # rest) (length pre + 1) pEnd"
    by (subst field_end.simps) auto
  also have "\<dots> = field_end ((pre @ [x]) @ f @ sep # rest) (length (pre @ [x])) pEnd" by simp
  finally show ?case using Cons.IH [of "pre @ [x]"] Cons.prems by simp
qed

text \<open>A field the receiver reads as \<open>v\<close>: a word without blanks that \<open>strtoul\<close> reads to its end.\<close>

definition is_field :: "nat \<Rightarrow> u8 list \<Rightarrow> u32 \<Rightarrow> bool" where
  "is_field base f v \<longleftrightarrow>
     f \<noteq> [] \<and> (\<forall>x \<in> set f. x \<noteq> 0x20 \<and> x \<noteq> 0) \<and>
     (\<forall>rest. lymodem_getValue (f @ 0 # rest) base = Some (v, True))"

lemma next_word:
  assumes f: "f \<noteq> []" "\<forall>x \<in> set f. x \<noteq> 0x20 \<and> x \<noteq> 0" and sep: "sep = 0x20 \<or> sep = 0"
    and pEnd: "length pre + length f \<le> pEnd" and p: "p = length pre"
  shows "lymodem_get_next_meta_data_string (pre @ f @ sep # rest) p pEnd =
    Some (Some p, pre @ f @ 0 # rest, length (pre @ f @ [0]))"
proof -
  obtain x f' where x: "f = x # f'" using f(1) by (cases f) auto
  have w: "mem_write ((pre @ f) @ sep # rest) (length (pre @ f)) 0 = Some ((pre @ f) @ 0 # rest)"
    by (rule mem_write_mid) simp
  have r: "mem_read (pre @ f @ sep # rest) (length pre) = Some x"
    unfolding x using mem_read_mid [of "length pre" pre x "f' @ sep # rest"] by simp
  have e: "field_end (pre @ f @ sep # rest) (length pre) pEnd = Some (length pre + length f)"
    using f sep pEnd by (intro field_end_at)
  have "x \<noteq> 0" "length pre < pEnd" using f pEnd x by auto
  with w r e p show ?thesis
    by (simp add: lymodem_get_next_meta_data_string_def)
qed

lemma next_field:
  assumes "is_field base f v" and "sep = 0x20 \<or> sep = 0" and "length pre + length f \<le> pEnd"
    and "p = length pre"
  shows "lymodem_get_next_meta_data_string (pre @ f @ sep # rest) p pEnd =
    Some (Some p, pre @ f @ 0 # rest, length (pre @ f @ [0]))"
  using assms by (intro next_word) (simp_all add: is_field_def)

lemma store_field:
  assumes "is_field (if k = 0 then 10 else 8) f v"
  shows "lymodem_store_field k (f @ 0 # rest) fd = Some (True,
    (if k = 0 then fd\<lparr>file_size := v, valid := valid fd OR LMODEM_METADATA_FILESIZE_VALID\<rparr>
     else if k = 1 then fd\<lparr>modif_date := v, valid := valid fd OR LMODEM_METADATA_MODIFDATE_VALID\<rparr>
     else if k = 2 then fd\<lparr>permission := ucast v AND NOT 0x8000,
       valid := valid fd OR LMODEM_METADATA_PERMISSION_VALID\<rparr>
     else fd\<lparr>serial_number := v, valid := valid fd OR LMODEM_METADATA_SERIAL_VALID\<rparr>))"
  using assms by (auto simp: lymodem_store_field_def is_field_def)

text \<open>One round of the loop over the fields.\<close>

lemma field_round:
  assumes "is_field (if k = 0 then 10 else 8) f v" and "sep = 0x20 \<or> sep = 0"
    and "length pre + length f \<le> pEnd"
    and "lymodem_store_field k (f @ 0 # rest) fd = Some (True, fd')"
  shows "lymodem_meta_data_fields (k # ks) (pre @ f @ sep # rest) (length pre) pEnd fd =
    lymodem_meta_data_fields ks ((pre @ f @ [0]) @ rest) (length (pre @ f @ [0])) pEnd fd'"
  using next_field [OF assms(1-3) refl, of rest] assms(4)
  by (simp del: length_append)

definition with_fields ::
  "u32 \<Rightarrow> u32 \<Rightarrow> u32 \<Rightarrow> u32 \<Rightarrow> lmodem_file_characteristics \<Rightarrow> lmodem_file_characteristics" where
  "with_fields sz date perm serial fd =
     fd\<lparr>file_size := sz, modif_date := date, permission := ucast perm AND NOT 0x8000,
       serial_number := serial,
       valid := valid fd OR LMODEM_METADATA_FILESIZE_VALID OR LMODEM_METADATA_MODIFDATE_VALID OR
         LMODEM_METADATA_PERMISSION_VALID OR LMODEM_METADATA_SERIAL_VALID\<rparr>"

lemma fields_read:
  assumes f: "is_field 10 f0 sz" "is_field 8 f1 date" "is_field 8 f2 perm" "is_field 8 f3 serial"
    and pEnd: "length pre + length f0 + length f1 + length f2 + length f3 + 3 \<le> pEnd"
  shows "lymodem_meta_data_fields [0, 1, 2, 3]
      (pre @ f0 @ 0x20 # f1 @ 0x20 # f2 @ 0x20 # f3 @ 0 # rest) (length pre) pEnd fd =
    Some (True, pre @ f0 @ 0 # f1 @ 0 # f2 @ 0 # f3 @ 0 # rest, with_fields sz date perm serial fd)"
proof -
  let ?fd0 = "fd\<lparr>file_size := sz, valid := valid fd OR LMODEM_METADATA_FILESIZE_VALID\<rparr>"
  let ?fd1 = "?fd0\<lparr>modif_date := date, valid := valid ?fd0 OR LMODEM_METADATA_MODIFDATE_VALID\<rparr>"
  let ?fd2 = "?fd1\<lparr>permission := ucast perm AND NOT 0x8000,
       valid := valid ?fd1 OR LMODEM_METADATA_PERMISSION_VALID\<rparr>"
  let ?fd3 = "?fd2\<lparr>serial_number := serial, valid := valid ?fd2 OR LMODEM_METADATA_SERIAL_VALID\<rparr>"
  let ?p1 = "pre @ f0 @ [0]" and ?p2 = "(pre @ f0 @ [0]) @ f1 @ [0]"
    and ?p3 = "((pre @ f0 @ [0]) @ f1 @ [0]) @ f2 @ [0]"
  have s0: "lymodem_store_field 0 (f0 @ 0 # r) fd = Some (True, ?fd0)"
    and s1: "lymodem_store_field 1 (f1 @ 0 # r) ?fd0 = Some (True, ?fd1)"
    and s2: "lymodem_store_field 2 (f2 @ 0 # r) ?fd1 = Some (True, ?fd2)"
    and s3: "lymodem_store_field 3 (f3 @ 0 # r) ?fd2 = Some (True, ?fd3)" for r
    using f by (simp_all add: store_field [where v = sz] store_field [where v = date]
        store_field [where v = perm] store_field [where v = serial])
  have "lymodem_meta_data_fields [0, 1, 2, 3]
      (pre @ f0 @ 0x20 # f1 @ 0x20 # f2 @ 0x20 # f3 @ 0 # rest) (length pre) pEnd fd =
    lymodem_meta_data_fields [1, 2, 3] (?p1 @ f1 @ 0x20 # f2 @ 0x20 # f3 @ 0 # rest) (length ?p1) pEnd ?fd0"
    using f(1) pEnd by (intro field_round [OF _ _ _ s0]) auto
  also have "\<dots> = lymodem_meta_data_fields [2, 3] (?p2 @ f2 @ 0x20 # f3 @ 0 # rest) (length ?p2) pEnd ?fd1"
    using f(2) pEnd by (intro field_round [OF _ _ _ s1]) auto
  also have "\<dots> = lymodem_meta_data_fields [3] (?p3 @ f3 @ 0 # rest) (length ?p3) pEnd ?fd2"
    using f(3) pEnd by (intro field_round [OF _ _ _ s2]) auto
  also have "\<dots> = lymodem_meta_data_fields [] ((?p3 @ f3 @ [0]) @ rest) (length (?p3 @ f3 @ [0])) pEnd ?fd3"
    using f(4) pEnd by (intro field_round [OF _ _ _ s3]) auto
  finally show ?thesis by (simp add: with_fields_def or.assoc)
qed

lemma skip_one_zero:
  assumes "mem_read buf p = Some 0" and "mem_read buf (Suc p) = Some y" and "y \<noteq> 0" and "p < pEnd"
  shows "skip_zeros buf p pEnd = Some (Suc p)"
proof -
  have "skip_zeros buf p pEnd = skip_zeros buf (Suc p) pEnd"
    using assms(1,4) by (subst skip_zeros.simps) simp
  also have "\<dots> = Some (Suc p)"
    using assms(2,3) by (subst skip_zeros.simps) simp
  finally show ?thesis .
qed

text \<open>The first half of \<open>lymodem_decode_block0\<close>: the name is copied, and the rest is left to the metadata.\<close>

definition cleared_meta_data :: "u8 list \<Rightarrow> lmodem_file_characteristics \<Rightarrow> lmodem_file_characteristics" where
  "cleared_meta_data name fd = fd\<lparr>modif_date := 0, permission := 0, serial_number := 0, file_size := 0,
     filename := Some name, valid := LMODEM_METADATA_FILENAME_VALID\<rparr>"

lemma decode_block0_name_stored:
  assumes x: "mem_read (line_buffer (blk_buffer c)) 2 = Some x" "x \<noteq> 0"
    and n: "n = unat (filename_size (file_data c))" "length name < n" "n \<le> length fbuf"
    and bytes: "strncpy_bytes (drop 2 (line_buffer (blk_buffer c))) (n - 1) =
      Some (name @ replicate (n - 1 - length name) 0)"
    and fb: "filename (file_data c) = Some fbuf"
  shows "\<exists>name'. lymodem_decode_block0 c =
      lymodem_get_meta_data (c\<lparr>file_data := cleared_meta_data (name @ 0 # name') (file_data c)\<rparr>) \<and>
    length (name @ 0 # name') = length fbuf"
proof -
  let ?fd = "file_data c" and ?buf = "line_buffer (blk_buffer c)"
  have fne: "fbuf \<noteq> []" using n(2,3) by auto
  have n1: "unat (filename_size ?fd - 1) = n - 1" "0 < n"
    using n(1,2) by (auto simp: unat_u32_sub)
  have clean: "lmodem_metadata_clean ?fd = Some (?fd\<lparr>filename := Some (fbuf[0 := 0]), modif_date := 0,
      permission := 0, serial_number := 0, file_size := 0, valid := 0\<rparr>)"
    using fb fne by (simp add: lmodem_metadata_clean_def mem_write_def)
  let ?name1 = "name @ replicate (n - 1 - length name) 0 @ drop (n - 1) (fbuf[0 := 0])"
  have put: "strncpy (fbuf[0 := 0]) 0 (drop 2 ?buf) (n - 1) = Some ?name1"
    using bytes n(2,3) by (simp add: strncpy_def mem_put_def)
  have "drop (n - 1) (fbuf[0 := 0]) \<noteq> []" using n(2,3) by auto
  from mem_write_next [OF _ this, of "n - 1" "name @ replicate (n - 1 - length name) 0" 0]
  have zero: "mem_write ?name1 (n - 1) 0 =
      Some (name @ replicate (n - 1 - length name) 0 @ 0 # drop 1 (drop (n - 1) (fbuf[0 := 0])))"
    using n(2) by simp
  obtain name' where name': "name @ replicate (n - 1 - length name) 0 @ 0 # drop 1 (drop (n - 1) (fbuf[0 := 0]))
      = name @ 0 # name'"
    by (cases "n - 1 - length name") auto
  have len': "length (name @ 0 # name') = length fbuf"
    unfolding name' [symmetric] using n(2,3) by simp
  have "lymodem_decode_block0 c =
      lymodem_get_meta_data (c\<lparr>file_data := cleared_meta_data (name @ 0 # name') (file_data c)\<rparr>)"
    using clean x put zero name' n1(1) by (simp add: lymodem_decode_block0_def cleared_meta_data_def)
  with len' show ?thesis by blast
qed

lemma decode_block0_name_copied:
  assumes name: "is_text name" "name \<noteq> []"
    and buf: "line_buffer (blk_buffer c) = [h, m] @ name @ 0 # rest"
    and fb: "filename (file_data c) = Some fbuf" "length name < unat (filename_size (file_data c))"
      "unat (filename_size (file_data c)) \<le> length fbuf"
  shows "\<exists>name'. lymodem_decode_block0 c =
      lymodem_get_meta_data (c\<lparr>file_data := cleared_meta_data (name @ 0 # name') (file_data c)\<rparr>) \<and>
    length (name @ 0 # name') = length fbuf"
proof -
  let ?n = "unat (filename_size (file_data c))"
  obtain x xs where x: "name = x # xs" "x \<noteq> 0" using name by (cases name) (auto simp: is_text_def)
  have "mem_read (line_buffer (blk_buffer c)) 2 = Some x" by (simp add: buf x mem_read_def)
  moreover have "strncpy_bytes (drop 2 (line_buffer (blk_buffer c))) (?n - 1) =
      Some (name @ replicate (?n - 1 - length name) 0)"
    using name(1) fb(2) by (simp add: buf strncpy_bytes_text)
  ultimately show ?thesis using decode_block0_name_stored [OF _ x(2) refl fb(2,3) _ fb(1)] by blast
qed

text \<open>The whole of \<open>lymodem_decode_block0\<close> on a name and four fields.\<close>

lemma decode_block0_returns:
  assumes name: "is_text name" "name \<noteq> []"
    and buf: "line_buffer (blk_buffer c) = [h, m] @ name @ 0 # f0 @ 0x20 # f1 @ 0x20 # f2 @ 0x20 # f3 @ 0 # rest"
    and f: "is_field 10 f0 sz" "is_field 8 f1 date" "is_field 8 f2 perm" "is_field 8 f3 serial"
    and fb: "filename (file_data c) = Some fbuf" "length name < unat (filename_size (file_data c))"
      "unat (filename_size (file_data c)) \<le> length fbuf"
    and M: "length f0 + length f1 + length f2 + length f3 + 4 \<le> unat (line_max_size (blk_buffer c))"
  shows "\<exists>buf' name'. lymodem_decode_block0 c = Some (True, c\<lparr>blk_buffer := (blk_buffer c)\<lparr>line_buffer := buf'\<rparr>,
      file_data := with_fields sz date perm serial
        (file_data c\<lparr>filename := Some (name @ 0 # name'), valid := LMODEM_METADATA_FILENAME_VALID\<rparr>)\<rparr>) \<and>
    length buf' = length (line_buffer (blk_buffer c)) \<and> length (name @ 0 # name') = length fbuf"
proof -
  let ?buf = "line_buffer (blk_buffer c)" and ?M = "unat (line_max_size (blk_buffer c))"
  let ?fields = "f0 @ 0x20 # f1 @ 0x20 # f2 @ 0x20 # f3 @ 0 # rest"
  obtain name' where dec: "lymodem_decode_block0 c =
      lymodem_get_meta_data (c\<lparr>file_data := cleared_meta_data (name @ 0 # name') (file_data c)\<rparr>)"
    and len': "length (name @ 0 # name') = length fbuf"
    using decode_block0_name_copied [OF name buf fb] by blast
  let ?fd1 = "cleared_meta_data (name @ 0 # name') (file_data c)"
  let ?c = "c\<lparr>file_data := ?fd1\<rparr>"
  obtain y ys where y: "f0 = y # ys" "y \<noteq> 0" using f(1) by (cases f0) (auto simp: is_field_def)
  let ?pre = "[h, m] @ name @ [0]"
  have buf': "?buf = ?pre @ ?fields" by (simp add: buf)
  have skip: "skip_zeros ?buf (2 + length name) (2 + length name + ?M) = Some (length ?pre)"
  proof -
    have "mem_read ?buf (2 + length name) = Some 0"
      using mem_read_mid [of "2 + length name" "[h, m] @ name" 0 ?fields] by (simp add: buf)
    moreover have "mem_read ?buf (length ?pre) = Some y"
      using mem_read_mid [of "length ?pre" ?pre y "ys @ 0x20 # f1 @ 0x20 # f2 @ 0x20 # f3 @ 0 # rest"]
      by (simp add: buf y)
    ultimately show ?thesis using M y skip_one_zero [of ?buf "2 + length name" y] by simp
  qed
  have fields: "lymodem_meta_data_fields [0, 1, 2, 3] ?buf (length ?pre) (2 + length name + ?M) ?fd1 =
      Some (True, ?pre @ f0 @ 0 # f1 @ 0 # f2 @ 0 # f3 @ 0 # rest, with_fields sz date perm serial ?fd1)"
    unfolding buf' using f M by (intro fields_read) simp_all
  have slen: "strlen (name @ 0 # name') = Some (length name)" using name(1) by (rule strlen_text)
  have "length ?pre < 2 + length name + ?M" using M by simp
  then have code: "lymodem_get_meta_data ?c = Some (True, c\<lparr>blk_buffer := (blk_buffer c)
      \<lparr>line_buffer := ?pre @ f0 @ 0 # f1 @ 0 # f2 @ 0 # f3 @ 0 # rest\<rparr>,
      file_data := with_fields sz date perm serial ?fd1\<rparr>)"
    using slen skip fields
    by (simp add: lymodem_get_meta_data_def cleared_meta_data_def del: lymodem_meta_data_fields.simps)
  have "with_fields sz date perm serial ?fd1 = with_fields sz date perm serial
        (file_data c\<lparr>filename := Some (name @ 0 # name'), valid := LMODEM_METADATA_FILENAME_VALID\<rparr>)"
    by (simp add: with_fields_def cleared_meta_data_def)
  with dec code len' show ?thesis
    by (intro exI [of _ "?pre @ f0 @ 0 # f1 @ 0 # f2 @ 0 # f3 @ 0 # rest"] exI [of _ name']) (simp add: buf)
qed

section \<open>A block 0 that is refused\<close>

lemma skip_all_zeros:
  assumes "length pre + z < pEnd" and "y \<noteq> 0"
  shows "skip_zeros (pre @ replicate z 0 @ y # rest) (length pre) pEnd = Some (length pre + z)"
  using assms(1)
proof (induction z arbitrary: pre)
  case 0
  then show ?case using mem_read_mid [of "length pre" pre y rest] assms(2) by (subst skip_zeros.simps) simp
next
  case (Suc z)
  let ?buf = "pre @ replicate (Suc z) 0 @ y # rest"
  have "mem_read ?buf (length pre) = Some 0"
    using mem_read_mid [of "length pre" pre 0 "replicate z 0 @ y # rest"] by simp
  then have "skip_zeros ?buf (length pre) pEnd = skip_zeros ?buf (length pre + 1) pEnd"
    using Suc.prems by (subst skip_zeros.simps) simp
  also have "?buf = (pre @ [0]) @ replicate z 0 @ y # rest" by simp
  also have "skip_zeros \<dots> (length pre + 1) pEnd = Some (length (pre @ [0]) + z)"
    using Suc.IH [of "pre @ [0]"] Suc.prems by simp
  finally show ?case by simp
qed

text \<open>A field that does not begin like a number.\<close>

definition no_number :: "u8 \<Rightarrow> bool" where
  "no_number x \<longleftrightarrow> x \<noteq> 0 \<and> \<not> is_space x \<and> \<not> is_digit 10 x \<and> x \<noteq> 0x2D \<and> x \<noteq> 0x2B"

lemma getValue_no_number: "no_number x \<Longrightarrow> lymodem_getValue (x # xs) 10 = Some (0, False)"
  by (simp add: lymodem_getValue_def strtoul_def no_number_def mem_read_def)

lemma field_split:
  assumes "0 \<in> set xs"
  shows "\<exists>f sep rest. xs = f @ sep # rest \<and> (\<forall>x \<in> set f. x \<noteq> 0x20 \<and> x \<noteq> 0) \<and> (sep = (0x20 :: u8) \<or> sep = 0)"
  using split_list_first_prop [of xs "\<lambda>x. x = 0x20 \<or> x = 0"] assms by blast

text \<open>
  The first word behind the stored name is taken for the file's size: if it does not begin like a
  number, the block is refused.
\<close>

lemma meta_data_refused:
  assumes fd: "filename (file_data c) = Some (name @ 0 # name')" "is_text name"
    and line: "line_buffer (blk_buffer c) = pre @ replicate z 0 @ hi # rest" "length pre = 2 + length name"
    and hi: "no_number hi" and tail: "0 \<in> set rest"
    and M: "length (line_buffer (blk_buffer c)) \<le> 2 + length name + unat (line_max_size (blk_buffer c))"
  shows "\<exists>buf fd. lymodem_get_meta_data c =
      Some (False, c\<lparr>blk_buffer := (blk_buffer c)\<lparr>line_buffer := buf\<rparr>, file_data := fd\<rparr>) \<and>
    length buf = length (line_buffer (blk_buffer c)) \<and> file_size fd = 0 \<and>
    valid fd = valid (file_data c) OR LMODEM_METADATA_FILESIZE_VALID"
proof -
  let ?M = "unat (line_max_size (blk_buffer c))" and ?n = "2 + length name" and ?fd = "file_data c"
  obtain f sep r where rest: "rest = f @ sep # r" "\<forall>x \<in> set f. x \<noteq> 0x20 \<and> x \<noteq> 0" "sep = 0x20 \<or> sep = 0"
    using field_split [OF tail] by blast
  let ?pre = "pre @ replicate z 0"
  have buf: "line_buffer (blk_buffer c) = ?pre @ (hi # f) @ sep # r" by (simp add: line rest(1))
  have size: "length ?pre + length (hi # f) < ?n + ?M" using M buf by simp
  have ne: "hi \<noteq> 0" "hi \<noteq> 0x20" using hi by (auto simp: no_number_def is_space_def)
  have skip: "skip_zeros (line_buffer (blk_buffer c)) ?n (?n + ?M) = Some (length ?pre)"
    using skip_all_zeros [of pre z "?n + ?M" hi "f @ sep # r"] size ne(1) line(2) by (simp add: buf)
  have word: "\<forall>x \<in> set (hi # f). x \<noteq> 0x20 \<and> x \<noteq> 0" using ne rest(2) by simp
  have next_string: "lymodem_get_next_meta_data_string (?pre @ (hi # f) @ sep # r) (length ?pre) (?n + ?M) =
      Some (Some (length ?pre), ?pre @ (hi # f) @ 0 # r, length (?pre @ (hi # f) @ [0]))"
    using size by (intro next_word [OF _ word rest(3) _ refl]) simp_all
  have store: "lymodem_store_field 0 (hi # f @ 0 # r) ?fd = Some (False, ?fd\<lparr>file_size := 0,
      valid := valid ?fd OR LMODEM_METADATA_FILESIZE_VALID\<rparr>)"
    using getValue_no_number [OF hi] by (simp add: lymodem_store_field_def)
  have fields: "lymodem_meta_data_fields [0, 1, 2, 3] (line_buffer (blk_buffer c)) (length ?pre) (?n + ?M) ?fd =
      Some (False, ?pre @ (hi # f) @ 0 # r, ?fd\<lparr>file_size := 0,
        valid := valid ?fd OR LMODEM_METADATA_FILESIZE_VALID\<rparr>)"
    unfolding buf lymodem_meta_data_fields.simps next_string using store by simp
  have "strlen (name @ 0 # name') = Some (length name)" using fd(2) by (rule strlen_text)
  moreover have "length ?pre < ?n + ?M" using size by simp
  ultimately have "lymodem_get_meta_data c = Some (False,
      c\<lparr>blk_buffer := (blk_buffer c)\<lparr>line_buffer := ?pre @ (hi # f) @ 0 # r\<rparr>,
        file_data := ?fd\<lparr>file_size := 0, valid := valid ?fd OR LMODEM_METADATA_FILESIZE_VALID\<rparr>\<rparr>)"
    using skip fields fd(1)
    by (simp add: lymodem_get_meta_data_def Let_def del: lymodem_meta_data_fields.simps)
  with buf show ?thesis
    by (intro exI [of _ "?pre @ (hi # f) @ 0 # r"] exI [of _ "?fd\<lparr>file_size := 0,
        valid := valid ?fd OR LMODEM_METADATA_FILESIZE_VALID\<rparr>"]) simp
qed

text \<open>A block 0 that is refused: \<open>lymodem_decode_block0\<close> returns false and a file size of 0, marked valid.\<close>

definition refuses_block0 :: "'w modem_context \<Rightarrow> bool" where
  "refuses_block0 c \<longleftrightarrow> (\<exists>buf fd. lymodem_decode_block0 c =
      Some (False, c\<lparr>blk_buffer := (blk_buffer c)\<lparr>line_buffer := buf\<rparr>, file_data := fd\<rparr>) \<and>
    file_size fd = 0 \<and> valid fd AND LMODEM_METADATA_FILESIZE_VALID = LMODEM_METADATA_FILESIZE_VALID)"

lemma refuses_stored:
  assumes dec: "lymodem_decode_block0 c =
      lymodem_get_meta_data (c\<lparr>file_data := cleared_meta_data (name @ 0 # name') (file_data c)\<rparr>)"
    and name: "is_text name"
    and line: "line_buffer (blk_buffer c) = pre @ replicate z 0 @ hi # rest" "length pre = 2 + length name"
    and hi: "no_number hi" and tail: "0 \<in> set rest"
    and M: "length (line_buffer (blk_buffer c)) \<le> 2 + length name + unat (line_max_size (blk_buffer c))"
  shows "refuses_block0 c"
proof -
  let ?c = "c\<lparr>file_data := cleared_meta_data (name @ 0 # name') (file_data c)\<rparr>"
  have "filename (file_data ?c) = Some (name @ 0 # name')" by (simp add: cleared_meta_data_def)
  from meta_data_refused [OF this name, of pre z hi rest] line hi tail M dec show ?thesis
    by (force simp: refuses_block0_def cleared_meta_data_def LMODEM_METADATA_FILENAME_VALID_def
        LMODEM_METADATA_FILESIZE_VALID_def)
qed

text \<open>
  A name and nothing more: behind it come the zeros up to the end of the block, and then its CRC.
\<close>

lemma decode_name_only:
  assumes name: "is_text name" "name \<noteq> []" and z: "0 < z"
    and buf: "line_buffer (blk_buffer c) = [h, m] @ name @ replicate z 0 @ hi # rest"
    and hi: "no_number hi" and tail: "0 \<in> set rest"
    and fb: "filename (file_data c) = Some fbuf" "length name < unat (filename_size (file_data c))"
      "unat (filename_size (file_data c)) \<le> length fbuf"
    and M: "length (line_buffer (blk_buffer c)) \<le> 2 + length name + unat (line_max_size (blk_buffer c))"
  shows "refuses_block0 c"
proof -
  obtain z' where z': "z = Suc z'" using z by (cases z) auto
  have "line_buffer (blk_buffer c) = [h, m] @ name @ 0 # (replicate z' 0 @ hi # rest)" by (simp add: buf z')
  from decode_block0_name_copied [OF name this fb] obtain name' where "lymodem_decode_block0 c =
      lymodem_get_meta_data (c\<lparr>file_data := cleared_meta_data (name @ 0 # name') (file_data c)\<rparr>)" by blast
  from refuses_stored [OF this name(1), of "[h, m] @ name" z hi rest] buf hi tail M show ?thesis by simp
qed

text \<open>A name that is longer than the receiver's buffer: the part that was cut off follows the stored name.\<close>

lemma decode_long_name:
  assumes name: "is_text (head @ hi # tail)" and hi: "no_number hi"
    and buf: "line_buffer (blk_buffer c) = [h, m] @ head @ hi # tail @ 0 # rest"
    and fb: "filename (file_data c) = Some fbuf" "unat (filename_size (file_data c)) = length head + 1"
      "length head < length fbuf"
    and M: "length (line_buffer (blk_buffer c)) \<le> 2 + length head + unat (line_max_size (blk_buffer c))"
  shows "refuses_block0 c"
proof -
  have head: "is_text head" "is_text (hi # tail)" using name by (simp_all add: is_text_def)
  obtain x xs where x: "head @ hi # tail = x # xs" by (cases "head @ hi # tail") auto
  then have "x \<noteq> 0" using name by (auto simp: is_text_def)
  have rd: "mem_read (line_buffer (blk_buffer c)) 2 = Some x"
    using x by (cases head) (auto simp: buf mem_read_def)
  have "strncpy_bytes (drop 2 (line_buffer (blk_buffer c))) (length head) = Some head"
    using strncpy_bytes_cut [of "head @ hi # tail" "length head" "0 # rest"] name by (simp add: buf)
  then obtain name' where "lymodem_decode_block0 c =
      lymodem_get_meta_data (c\<lparr>file_data := cleared_meta_data (head @ 0 # name') (file_data c)\<rparr>)"
    using decode_block0_name_stored [OF rd \<open>x \<noteq> 0\<close> refl _ _ _ fb(1), of head] fb(2,3) by auto
  from refuses_stored [OF this head(1), of "[h, m] @ head" 0 hi "tail @ 0 # rest"] buf hi M show ?thesis by simp
qed

end
