(* ===== verification/Ymodem_Tx.thy ===== *)
theory Ymodem_Tx
  imports Tx
begin

text \<open>
  \<open>src/lmodem_tx.c\<close>, the YMODEM part: block 0 with the file's name and metadata
  (\<open>lymodem_build_and_send_block0\<close>), the empty block 0 that ends the batch
  (\<open>lymodem_send_end_of_bach\<close>), \<open>lymodem_emit\<close> and the entry point \<open>lmodem_emit\<close>.
\<close>

section \<open>Block 0\<close>

text \<open>\<open>lymodem_format[n - 1]\<close> and its arguments.\<close>

definition meta_data_text :: "lmodem_file_characteristics \<Rightarrow> nat \<Rightarrow> u8 list" where
  "meta_data_text fd n =
     (let size_text = format_d (file_size fd);
          date = 0x20 # format_o (modif_date fd);
          perm = 0x20 # format_o (ucast (permission fd) OR 0x8000);
          serial = 0x20 # format_o (serial_number fd)
      in if n = 1 then size_text
         else if n = 2 then size_text @ date
         else if n = 3 then size_text @ date @ perm
         else size_text @ date @ perm @ serial)"

text \<open>How many of the four fields after the name are marked valid, whichever they are.\<close>

definition nb_meta_data :: "u32 \<Rightarrow> nat" where
  "nb_meta_data v =
     (if v AND LMODEM_METADATA_FILESIZE_VALID = LMODEM_METADATA_FILESIZE_VALID then 1 else 0) +
     (if v AND LMODEM_METADATA_MODIFDATE_VALID = LMODEM_METADATA_MODIFDATE_VALID then 1 else 0) +
     (if v AND LMODEM_METADATA_PERMISSION_VALID = LMODEM_METADATA_PERMISSION_VALID then 1 else 0) +
     (if v AND LMODEM_METADATA_SERIAL_VALID = LMODEM_METADATA_SERIAL_VALID then 1 else 0)"

text \<open>
  Name and metadata into the cleared line buffer: the buffer, and \<open>max_size\<close>. The room for
  \<open>snprintf\<close> is a \<open>ptrdiff_t\<close> that becomes a \<open>size_t\<close>.
\<close>

definition write_block0_data ::
  "u8 list \<Rightarrow> u32 \<Rightarrow> lmodem_file_characteristics \<Rightarrow> (u8 list \<times> u32) option" where
  "write_block0_data buf maxSize fd = do {
     let maxTocopy = maxSize - 3;
     name \<leftarrow> filename fd;
     buf \<leftarrow> strncpy buf 3 name (unat maxTocopy);
     buf \<leftarrow> mem_write buf (unat (3 + maxTocopy)) 0;
     sizeFilename \<leftarrow> strlen (drop 3 buf);
     let pStart = 3 + sizeFilename + 1;
     let room = nat ((int (unat maxSize) - 3 - int pStart) mod 2 ^ 64);
     (nbWritten, buf) \<leftarrow>
       (if nb_meta_data (valid fd) = 0 then Some (0, buf)
        else snprintf buf pStart room (meta_data_text fd (nb_meta_data (valid fd))));
     Some (buf, word_of_nat (3 + sizeFilename + 1 + nbWritten + 1))
   }"

text \<open>CRC and emission of a block 0 of \<open>k\<close> bytes that lies in the buffer, header included.\<close>

definition send_block0 :: "'w modem_context \<Rightarrow> u8 list \<Rightarrow> u32 \<Rightarrow> 'w modem_context option" where
  "send_block0 c buf effectiveBlksize = do {
     let nbDataToSend = 1 + 2 + effectiveBlksize + 2;
     data \<leftarrow> mem_get buf 3 (unat effectiveBlksize);
     let crc = crc16_doCalcul (crc16 c) data LXMODEM_CRC16_INIT_VALUE LXMODEM_CRC16_XOR_FINAL;
     buf \<leftarrow> mem_write buf (unat (3 + effectiveBlksize)) (crc_hi crc);
     buf \<leftarrow> mem_write buf (unat (3 + effectiveBlksize + 1)) (crc_lo crc);
     c \<leftarrow> putchar_line (c\<lparr>blk_buffer := (blk_buffer c)\<lparr>line_buffer := buf\<rparr>\<rparr>) nbDataToSend;
     Some (c\<lparr>blk_buffer := (blk_buffer c)\<lparr>line_current_size := nbDataToSend\<rparr>\<rparr>)
   }"

definition lymodem_build_and_send_block0 ::
  "'w modem_context \<Rightarrow> (bool \<times> 'w modem_context) option" where
  "lymodem_build_and_send_block0 c = do {
     buf \<leftarrow> mem_set (line_buffer (blk_buffer c)) 0 0 (unat (line_max_size (blk_buffer c)));
     buf \<leftarrow> mem_write buf 1 0;
     buf \<leftarrow> mem_write buf 2 (NOT 0);
     if filename_valid c then do {
       (buf, maxSize) \<leftarrow> write_block0_data buf (line_max_size (blk_buffer c)) (file_data c);
       let effectiveBlksize = (if maxSize < 128 then 128 else 1024);
       buf \<leftarrow> mem_write buf 0 (if maxSize < 128 then SOH else STX);
       c \<leftarrow> send_block0 c buf effectiveBlksize;
       Some (True, c)
     } else Some (False, c\<lparr>blk_buffer := (blk_buffer c)\<lparr>line_buffer := buf\<rparr>\<rparr>)
   }"

definition lymodem_send_end_of_bach :: "'w modem_context \<Rightarrow> 'w modem_context option" where
  "lymodem_send_end_of_bach c = do {
     buf \<leftarrow> mem_set (line_buffer (blk_buffer c)) 0 0 (unat (line_max_size (blk_buffer c)));
     buf \<leftarrow> mem_write buf 0 SOH;
     buf \<leftarrow> mem_write buf 1 0;
     buf \<leftarrow> mem_write buf 2 (NOT 0);
     send_block0 c buf 128
   }"

section \<open>The emission\<close>

text \<open>
  The two loops of \<open>lymodem_emit\<close> that wait for the answer to a block 0. \<open>receivedChar\<close> keeps
  its value over a timeout, and only a NAK is counted, so a line that stays silent, or sends
  something else, gives no value. The result: \<open>bOk\<close>, \<open>receivedChar\<close>, the context.
\<close>

partial_function (option) lymodem_wait_ack ::
  "'w modem_context \<Rightarrow> u8 \<Rightarrow> bool \<Rightarrow> nat \<Rightarrow> (bool \<times> u8 \<times> 'w modem_context) option" where
  "lymodem_wait_ack c receivedChar bOk n =
     (if n < 10 then do {
        (got, c) \<leftarrow> lmodem_wait_reception c;
        let receivedChar = (case got of Some x \<Rightarrow> x | None \<Rightarrow> receivedChar);
        if receivedChar = ACK then Some (True, receivedChar, c)
        else if receivedChar = CAN then Some (False, receivedChar, c)
        else if receivedChar = NAK then do {
          c \<leftarrow> lxmode_reemit_previous_block c;
          lymodem_wait_ack c receivedChar bOk (n + 1)
        } else lymodem_wait_ack c receivedChar bOk n
      } else Some (bOk, receivedChar, c))"

definition lymodem_emit :: "'w modem_context \<Rightarrow> (u32 \<times> 'w modem_context) option" where
  "lymodem_emit c = do {
     let receivedChar = 0;
     let nbEmitted = -1;
     (bOk, c) \<leftarrow> lmodem_wait_reception_of c char_C;
     (bOk, receivedChar, c) \<leftarrow>
       (if bOk then do {
          (_, c) \<leftarrow> lymodem_build_and_send_block0 c;
          lymodem_wait_ack c receivedChar bOk 0
        } else Some (bOk, receivedChar, c));
     (nbEmitted, c) \<leftarrow> (if bOk then lxmodem_emit c else Some (nbEmitted, c));
     (bOk, c) \<leftarrow>
       (if bOk \<and> nbEmitted > 0 then lmodem_wait_reception_of c char_C else Some (bOk, c));
     if bOk then do {
       c \<leftarrow> lymodem_send_end_of_bach c;
       (bOk, receivedChar, c) \<leftarrow> lymodem_wait_ack c receivedChar bOk 0;
       Some (if bOk then nbEmitted else -1, c)
     } else Some (nbEmitted, c)
   }"

definition lmodem_emit :: "'w modem_context \<Rightarrow> lmodem_protocol \<Rightarrow> (u32 \<times> 'w modem_context) option" where
  "lmodem_emit c p =
     (let c = c\<lparr>protocol := p\<rparr>
      in case p of XMODEM \<Rightarrow> lxmodem_emit c | YMODEM \<Rightarrow> lymodem_emit c)"

section \<open>What block 0 contains\<close>

text \<open>The name, a zero, the metadata, a zero, and zeros up to 128 or 1024 bytes.\<close>

definition block0_text :: "lmodem_file_characteristics \<Rightarrow> u8 list \<Rightarrow> u8 list" where
  "block0_text fd name = name @ 0 # meta_data_text fd 4 @ [0]"

definition block0_size :: "u8 list \<Rightarrow> nat" where
  "block0_size txt = (if length txt + 3 < 128 then 128 else 1024)"

definition block0_data :: "lmodem_file_characteristics \<Rightarrow> u8 list \<Rightarrow> u8 list" where
  "block0_data fd name =
     (let txt = block0_text fd name in txt @ replicate (block0_size txt - length txt) 0)"

text \<open>All four fields are there, as \<open>tools/rzsz.c\<close> sets them.\<close>

definition all_meta_data :: "u32 \<Rightarrow> bool" where
  "all_meta_data v \<longleftrightarrow> nb_meta_data v = 4"

lemma drop_header: "3 \<le> k \<Longrightarrow> drop k (h # n # m # xs) = drop (k - 3) xs"
  by (simp add: drop_Cons' numeral_3_eq_3)

lemma write_block0_data_returns:
  assumes name: "is_text name" "filename fd = Some (name @ 0 # more_name)"
    and all: "all_meta_data (valid fd)"
    and fits: "length (block0_text fd name) + 6 \<le> unat maxSize" and tail: "tail \<noteq> []"
    and buf: "buf = [h, n, m] @ replicate (unat maxSize - 3) 0 @ tail"
  shows "write_block0_data buf maxSize fd =
    Some ([h, n, m] @ block0_text fd name @
        replicate (unat maxSize - 3 - length (block0_text fd name)) 0 @ 0 # drop 1 tail,
      word_of_nat (length (block0_text fd name) + 3))"
proof -
  let ?M = "unat maxSize" and ?txt = "meta_data_text fd 4" and ?last = "0 # drop 1 tail"
  let ?named = "[h, n, m] @ name @ replicate (?M - 3 - length name) 0"
  have len: "length (block0_text fd name) = length name + length ?txt + 2"
    by (simp add: block0_text_def)
  have sizes: "unat (maxSize - 3) = ?M - 3" "unat (3 + (maxSize - 3)) = ?M"
    using fits by (simp_all add: unat_u32_sub)
  have bytes: "strncpy_bytes (name @ 0 # more_name) (?M - 3) = Some (name @ replicate (?M - 3 - length name) 0)"
    using name(1) fits len by (intro strncpy_bytes_text) auto
  have put: "strncpy buf 3 (name @ 0 # more_name) (?M - 3) = Some (?named @ tail)"
    using fits len bytes by (simp add: strncpy_def mem_put_def buf drop_header)
  have zero: "mem_write (?named @ tail) ?M 0 = Some (?named @ ?last)"
    using fits len tail by (intro mem_write_next) simp_all
  have rest: "replicate (?M - 3 - length name) (0 :: u8) = 0 # replicate (?M - 4 - length name) 0"
  proof -
    have "?M - 3 - length name = Suc (?M - 4 - length name)" using fits len by simp
    then show ?thesis by (simp only: replicate_Suc)
  qed
  have slen: "strlen (drop 3 (?named @ ?last)) = Some (length name)"
    unfolding rest using name(1) by (simp add: strlen_text)
  have room: "nat ((int ?M - 3 - int (3 + length name + 1)) mod 2 ^ 64) = ?M - 7 - length name"
    using fits len unat_u32_less [of maxSize] by (simp add: mod_pos_pos_trivial nat_diff_distrib)
  have print: "snprintf (?named @ ?last) (3 + length name + 1) (?M - 7 - length name) ?txt =
      Some (length ?txt, [h, n, m] @ block0_text fd name @
        replicate (?M - 3 - length (block0_text fd name)) 0 @ ?last)"
  proof -
    have split: "?named @ ?last = ([h, n, m] @ name @ [0]) @ (replicate (?M - 4 - length name) 0 @ ?last)"
      unfolding rest by simp
    have "mem_put (([h, n, m] @ name @ [0]) @ (replicate (?M - 4 - length name) 0 @ ?last))
        (3 + length name + 1) (?txt @ [0]) = Some (([h, n, m] @ name @ [0]) @ (?txt @ [0]) @
          drop (length (?txt @ [0])) (replicate (?M - 4 - length name) 0 @ ?last))"
      using fits len by (intro mem_put_next) simp_all
    moreover have "take (?M - 7 - length name - 1) ?txt = ?txt" "?M - 7 - length name \<noteq> 0"
      "drop (length (?txt @ [0])) (replicate (?M - 4 - length name) 0 @ ?last) =
        replicate (?M - 3 - length (block0_text fd name)) 0 @ ?last"
      using fits len by simp_all
    ultimately show ?thesis
      unfolding split by (simp add: snprintf_def block0_text_def)
  qed
  show ?thesis
    unfolding write_block0_data_def name(2) Let_def
    by (simp only: bind.bind_lunit sizes put zero slen room)
      (use all print in \<open>simp add: all_meta_data_def len\<close>)
qed

text \<open>The CRC of a block 0 is stored and sent as that of a data block.\<close>

lemma send_block0_trailer:
  "send_block0 c buf k = do {
     (buf, n) \<leftarrow> store_trailer (crc16 c) buf k True;
     c \<leftarrow> putchar_line (c\<lparr>blk_buffer := (blk_buffer c)\<lparr>line_buffer := buf\<rparr>\<rparr>) n;
     Some (c\<lparr>blk_buffer := (blk_buffer c)\<lparr>line_current_size := n\<rparr>\<rparr>)
   }"
  by (simp add: send_block0_def store_trailer_def Let_def add.commute add.left_commute)

definition block0_frame :: "crc16_context \<Rightarrow> u8 list \<Rightarrow> u8 list" where
  "block0_frame ctx data = (if length data = 128 then SOH else STX) # block_frame True ctx 0 data"

lemma send_block0_returns:
  assumes p: "putchar_cb c = Some p" and k: "unat k = length data" "length data = 128 \<or> length data = 1024"
    and h: "h = (if length data = 128 then SOH else STX)"
    and buf: "buf = [h, 0, NOT 0] @ data @ rest" and room: "2 \<le> length rest"
    and f: "f = block0_frame (crc16 c) data"
  shows "send_block0 c buf k = Some (c\<lparr>world := p (world c) f, blk_buffer := (blk_buffer c)
    \<lparr>line_buffer := f @ drop 2 rest, line_current_size := word_of_nat (length f)\<rparr>\<rparr>)"
proof -
  have fr: "f = [h, 0, NOT 0] @ data @ block_trailer True (crc16 c) data"
    by (simp add: f block0_frame_def h block_frame_def)
  have len: "length f = length data + 5" by (simp add: fr length_block_trailer)
  have st: "store_trailer (crc16 c) buf k True = Some (f @ drop 2 rest, k + 5)"
    using store_trailer_next [of k data True "crc16 c" rest h 0 "NOT 0"] k room
    by (auto simp: buf fr length_block_trailer)
  have n: "k + 5 = word_of_nat (length f)" using k by (auto simp: len word_unat_eq_iff unat_of_nat unat_word_ariths)
  have "unat (word_of_nat (length f) :: u32) = length f"
    using k(2) by (intro unat_u32_of_nat) (auto simp: len)
  then show ?thesis
    unfolding send_block0_trailer st n
    using putchar_line_returns [of "c\<lparr>blk_buffer := (blk_buffer c)\<lparr>line_buffer := f @ drop 2 rest\<rparr>\<rparr>" p f
        "drop 2 rest" "word_of_nat (length f)"] p by simp
qed

lemma build_block0_returns:
  fixes c :: "'w modem_context"
  defines "fd \<equiv> file_data c" and "M \<equiv> unat (line_max_size (blk_buffer c))"
  assumes p: "putchar_cb c = Some p" and name: "is_text name" "filename fd = Some (name @ 0 # more_name)"
    and valid: "all_meta_data (valid fd)" "filename_valid c"
    and fits: "length (block0_text fd name) + 6 \<le> M" "M < length (line_buffer (blk_buffer c))"
    and block: "length (block0_text fd name) \<le> 1024"
      "block0_size (block0_text fd name) + 5 \<le> M"
    and f: "f = block0_frame (crc16 c) (block0_data fd name)"
  shows "\<exists>rest. lymodem_build_and_send_block0 c = Some (True, c\<lparr>world := p (world c) f, blk_buffer :=
      (blk_buffer c)\<lparr>line_buffer := f @ rest, line_current_size := word_of_nat (length f)\<rparr>\<rparr>) \<and>
    length (f @ rest) = length (line_buffer (blk_buffer c))"
proof -
  let ?old = "line_buffer (blk_buffer c)" and ?txt = "block0_text fd name"
  let ?tail = "drop M ?old" and ?k = "block0_size (block0_text fd name)"
  have tl: "?tail \<noteq> []" using fits by simp
  have clear: "mem_set ?old 0 0 M = Some (replicate M 0 @ ?tail)"
    using fits by (simp add: mem_set_def mem_put_def)
  have rep: "replicate M (0 :: u8) = [0, 0, 0] @ replicate (M - 3) 0"
  proof -
    have "M = Suc (Suc (Suc (M - 3)))" using fits by simp
    then show ?thesis by (metis append_Cons append_Nil replicate_Suc)
  qed
  have w1: "mem_write (replicate M 0 @ ?tail) 1 0 = Some ([0, 0, 0] @ replicate (M - 3) 0 @ ?tail)"
    unfolding rep by (simp add: mem_write_def)
  have w2: "mem_write ([0, 0, 0] @ replicate (M - 3) 0 @ ?tail) 2 (NOT 0) =
      Some ([0, 0, NOT 0] @ replicate (M - 3) 0 @ ?tail)"
    by (simp add: mem_write_def numeral_2_eq_2)
  have data: "write_block0_data ([0, 0, NOT 0] @ replicate (M - 3) 0 @ ?tail) (line_max_size (blk_buffer c)) fd =
      Some ([0, 0, NOT 0] @ ?txt @ replicate (M - 3 - length ?txt) 0 @ 0 # drop 1 ?tail,
        word_of_nat (length ?txt + 3))"
    using write_block0_data_returns [OF name valid(1) fits(1) [unfolded M_def] tl [unfolded M_def] refl]
    by (simp add: M_def)
  have small: "word_of_nat (length ?txt + 3) < (128 :: u32) \<longleftrightarrow> length ?txt + 3 < 128"
    using block by (simp add: word_less_nat_alt unat_u32_of_nat del: of_nat_add)
  have k: "?k = 128 \<or> ?k = 1024" "length ?txt \<le> ?k" "length ?txt + 3 < 128 \<longleftrightarrow> ?k = 128"
    using block by (auto simp: block0_size_def)
  let ?rest = "replicate (M - 3 - ?k) 0 @ 0 # drop 1 ?tail"
  have len: "length (block0_data fd name) = ?k" using k(2) by (simp add: block0_data_def Let_def)
  have "replicate (M - 3 - length ?txt) (0 :: u8) = replicate (?k - length ?txt) 0 @ replicate (M - 3 - ?k) 0"
    using k(2) block(2) by (simp add: replicate_add [symmetric])
  then have full: "?txt @ replicate (M - 3 - length ?txt) 0 @ 0 # drop 1 ?tail = block0_data fd name @ ?rest"
    by (simp add: block0_data_def Let_def)
  let ?h = "if ?k = 128 then SOH else STX"
  have w0: "mem_write ([0, 0, NOT 0] @ block0_data fd name @ ?rest) 0 ?h =
      Some ([?h, 0, NOT 0] @ block0_data fd name @ ?rest)"
    by (simp add: mem_write_def)
  have "unat (word_of_nat ?k :: u32) = length (block0_data fd name)" using k(1) len by auto
  from send_block0_returns [OF p this _ _ refl _ f, of ?h ?rest]
  have send: "send_block0 c ([?h, 0, NOT 0] @ block0_data fd name @ ?rest) (word_of_nat ?k) =
      Some (c\<lparr>world := p (world c) f, blk_buffer := (blk_buffer c)
        \<lparr>line_buffer := f @ drop 2 ?rest, line_current_size := word_of_nat (length f)\<rparr>\<rparr>)"
    using k(1) len block(2) by simp
  have code: "lymodem_build_and_send_block0 c = Some (True, c\<lparr>world := p (world c) f, blk_buffer := (blk_buffer c)
        \<lparr>line_buffer := f @ drop 2 ?rest, line_current_size := word_of_nat (length f)\<rparr>\<rparr>)"
    unfolding lymodem_build_and_send_block0_def M_def [symmetric] fd_def [symmetric]
    by (simp only: clear w1 w2 data bind.bind_lunit prod.case valid(2) if_True small k(3) full w0 Let_def)
      (use send k in \<open>auto split: if_splits\<close>)
  have "length f = ?k + 5"
    by (simp add: f block0_frame_def length_block_frame len)
  then have "length (f @ drop 2 ?rest) = length ?old" using fits block(2) by simp
  with code show ?thesis by blast
qed

section \<open>A line buffer of exactly the announced size\<close>

lemma write_block0_data_exact:
  assumes "length buf = unat maxSize"
  shows "write_block0_data buf maxSize fd = None"
proof -
  have "mem_write b (unat (3 + (maxSize - 3))) 0 = None" if "strncpy buf 3 n k = Some b" for b n k
  proof -
    have "length b = length buf"
      using that mem_put_length [of buf 3 _ b] by (auto simp: strncpy_def split: bind_splits)
    then show ?thesis using assms by (simp add: mem_write_def)
  qed
  then show ?thesis
    by (auto simp: write_block0_data_def Let_def split: bind_splits)
qed

lemma build_block0_exact:
  assumes "filename_valid c"
    and "unat (line_max_size (blk_buffer c)) = length (line_buffer (blk_buffer c))"
  shows "lymodem_build_and_send_block0 c = None"
  using assms write_block0_data_exact [of _ "line_max_size (blk_buffer c)"] mem_put_length mem_write_length
  by (auto simp: lymodem_build_and_send_block0_def mem_set_def split: bind_splits)

section \<open>Properties\<close>

text \<open>
  C20: Block 0 on the wire. With a name, all four metadata fields and a byte to spare,
  \<open>lymodem_build_and_send_block0\<close> sends exactly one frame with number 0, its CRC, and as data the
  name, a zero, size (decimal), date, permission and serial number (octal), padded with zeros to
  128 bytes or, if they do not fit, to 1024; the file is not touched.
\<close>

theorem block0_sends_metadata:
  assumes "putchar_cb c = Some p" and "is_text name"
    and "filename (file_data c) = Some (name @ 0 # more_name)"
    and "all_meta_data (valid (file_data c))" and "filename_valid c"
    and "length (block0_text (file_data c) name) \<le> 1023"
    and "1029 \<le> unat (line_max_size (blk_buffer c))"
    and "unat (line_max_size (blk_buffer c)) < length (line_buffer (blk_buffer c))"
  shows "\<exists>c'. lymodem_build_and_send_block0 c = Some (True, c') \<and>
    world c' = p (world c) (block0_frame (crc16 c) (block0_data (file_data c) name)) \<and>
    ramfile c' = ramfile c \<and> file_data c' = file_data c"
proof -
  have "block0_size (block0_text (file_data c) name) \<le> 1024" by (simp add: block0_size_def)
  then obtain rest where "lymodem_build_and_send_block0 c = Some (True, c\<lparr>
      world := p (world c) (block0_frame (crc16 c) (block0_data (file_data c) name)), blk_buffer := (blk_buffer c)
        \<lparr>line_buffer := block0_frame (crc16 c) (block0_data (file_data c) name) @ rest,
          line_current_size := word_of_nat (length (block0_frame (crc16 c) (block0_data (file_data c) name)))\<rparr>\<rparr>)"
    using build_block0_returns [OF assms(1,2,3,4,5) _ assms(8) _ _ refl] assms(6,7) by auto
  then show ?thesis by simp
qed

theorem block0_sends_metadata_witness:
  "\<exists>c'. lymodem_build_and_send_block0 ((memset_context (unset_context ()))\<lparr>putchar_cb := Some (\<lambda>w data. w),
      blk_buffer := \<lparr>line_buffer = replicate 1030 0, line_current_size = 0, line_max_size = 1029\<rparr>,
      file_data := \<lparr>valid = 0x1F, filename = Some [0x61, 0], filename_size = 2, file_size = 9, modif_date = 0,
        permission = 0, serial_number = 0\<rparr>\<rparr>) = Some (True, c')"
proof -
  have "\<exists>c'. lymodem_build_and_send_block0 ((memset_context (unset_context ()))\<lparr>putchar_cb := Some (\<lambda>w data. w),
      blk_buffer := \<lparr>line_buffer = replicate 1030 0, line_current_size = 0, line_max_size = 1029\<rparr>,
      file_data := \<lparr>valid = 0x1F, filename = Some [0x61, 0], filename_size = 2, file_size = 9, modif_date = 0,
        permission = 0, serial_number = 0\<rparr>\<rparr>) = Some (True, c') \<and> ramfile c' = ramfile (memset_context (unset_context ()))"
    using block0_sends_metadata [of "(memset_context (unset_context ()))\<lparr>putchar_cb := Some (\<lambda>w data. w),
      blk_buffer := \<lparr>line_buffer = replicate 1030 0, line_current_size = 0, line_max_size = 1029\<rparr>,
      file_data := \<lparr>valid = 0x1F, filename = Some [0x61, 0], filename_size = 2, file_size = 9, modif_date = 0,
        permission = 0, serial_number = 0\<rparr>\<rparr>" "\<lambda>w data. w" "[0x61]" "[]"]
    by (fastforce simp: is_text_def filename_valid_def all_meta_data_def nb_meta_data_def block0_text_def
        meta_data_text_def format_d_def format_o_def digits.simps
        LMODEM_METADATA_FILENAME_VALID_def LMODEM_METADATA_FILESIZE_VALID_def LMODEM_METADATA_MODIFDATE_VALID_def
        LMODEM_METADATA_PERMISSION_VALID_def LMODEM_METADATA_SERIAL_VALID_def)
  then show ?thesis by blast
qed

end
