(* ===== verification/Ymodem_Kept.thy ===== *)
theory Ymodem_Kept
  imports Ymodem_Rx Ymodem_Tx
begin

text \<open>
  Partial correctness of the transfers: whatever the line does, a call that returns has changed no
  more than the world, the bytes of the line buffer and the RAM file, and for a reception by YMODEM
  the file's metadata. Nothing is assumed of the callbacks or the buffers.
\<close>

section \<open>What a call keeps\<close>

text \<open>Everything but the world, the bytes of the line buffer and how many of them are a block.\<close>

definition keeps :: "'w modem_context \<Rightarrow> 'w modem_context \<Rightarrow> bool" where
  "keeps c c' \<longleftrightarrow> same_setup c c' \<and> ramfile c' = ramfile c"

lemma keeps_refl [simp]: "keeps c c"
  by (simp add: keeps_def)

lemma keeps_trans [trans]: "keeps a b \<Longrightarrow> keeps b c \<Longrightarrow> keeps a c"
  by (auto simp: keeps_def intro: same_setup_trans)

lemma keeps_world [simp]: "keeps c (c'\<lparr>world := w\<rparr>) = keeps c c'"
  by (simp add: keeps_def)

lemma keeps_line:
  "length buf = length (line_buffer (blk_buffer c)) \<Longrightarrow>
    keeps c (c\<lparr>blk_buffer := (blk_buffer c)\<lparr>line_buffer := buf\<rparr>\<rparr>)"
  "length buf = length (line_buffer (blk_buffer c)) \<Longrightarrow>
    keeps c (c\<lparr>blk_buffer := (blk_buffer c)\<lparr>line_buffer := buf, line_current_size := n\<rparr>\<rparr>)"
  "keeps c (c\<lparr>blk_buffer := (blk_buffer c)\<lparr>line_current_size := n\<rparr>\<rparr>)"
  by (simp_all add: keeps_def same_setup_def)

named_theorems kept \<open>what a call that returns has kept\<close>

lemma putchar_kept [kept]: "lmodem_putchar c data = Some c' \<Longrightarrow> keeps c c'"
  by (auto simp: lmodem_putchar_def split: bind_splits)

lemma getchar_kept [kept]: "lmodem_getchar c n = Some (ok, data, c') \<Longrightarrow> keeps c c'"
  by (auto simp: lmodem_getchar_def split: bind_splits if_splits)

lemma getchar_byte_kept [kept]: "lmodem_getchar_byte c = Some (x, c') \<Longrightarrow> keeps c c'"
  by (auto simp: lmodem_getchar_byte_def split: bind_splits if_splits list.splits dest: getchar_kept)

lemma getchar_block_kept [kept]: "lmodem_getchar_block c n = Some (ok, c') \<Longrightarrow> keeps c c'"
  by (auto simp: lmodem_getchar_block_def split: bind_splits dest!: mem_put_length
      intro: keeps_trans [OF getchar_kept keeps_line(1)])

lemma replies_kept [kept]:
  "lxmodem_build_and_send_preambule c = Some c' \<Longrightarrow> keeps c c'"
  "lxmodem_build_and_send_reply c st = Some c' \<Longrightarrow> keeps c c'"
  "lxmodem_build_and_send_cancel c = Some c' \<Longrightarrow> keeps c c'"
  by (simp_all add: lxmodem_build_and_send_preambule_def lxmodem_build_and_send_reply_def
      lxmodem_build_and_send_cancel_def kept)

lemma wait_char_kept [kept]: "wait_char c n = Some (x, c') \<Longrightarrow> keeps c c'"
proof (induction c n arbitrary: x c' rule: wait_char.induct)
  case (1 c n)
  show ?case
  proof (cases "n < 10")
    case True
    with "1.prems" obtain y c1 where c1: "lmodem_getchar_byte c = Some (y, c1)"
      by (subst (asm) wait_char.simps) (auto split: bind_splits)
    with "1.prems" True "1.IH" [OF True c1] have "keeps c1 c'"
      by (subst (asm) wait_char.simps) (auto split: option.splits)
    with getchar_byte_kept [OF c1] show ?thesis by (rule keeps_trans)
  next
    case False
    with "1.prems" show ?thesis by (subst (asm) wait_char.simps) simp
  qed
qed

lemma wait_reception_of_kept [kept]: "wait_reception_of c x n = Some (ok, c') \<Longrightarrow> keeps c c'"
proof (induction c x n arbitrary: ok c' rule: wait_reception_of.induct)
  case (1 c x n)
  show ?case
  proof (cases "n < 10")
    case True
    with "1.prems" obtain y c1 where c1: "lmodem_getchar_byte c = Some (y, c1)"
      by (subst (asm) wait_reception_of.simps) (auto split: bind_splits)
    with "1.prems" True "1.IH" [OF True c1 refl] have "keeps c1 c'"
      by (subst (asm) wait_reception_of.simps) (auto split: if_splits)
    with getchar_byte_kept [OF c1] show ?thesis by (rule keeps_trans)
  next
    case False
    with "1.prems" show ?thesis by (subst (asm) wait_reception_of.simps) simp
  qed
qed

section \<open>Receiving by YMODEM\<close>

lemma receive_block0_loop_kept [kept]:
  "lymodem_receive_block0_loop c k n = Some (st, c') \<Longrightarrow> keeps c c'"
proof -
  have "keeps c (snd y)" if "lymodem_receive_block0_loop c k n = Some y" for c :: "'w modem_context" and k n y
    using that
  proof (rule lymodem_receive_block0_loop.raw_induct [where P = "\<lambda>c k n y. keeps c (snd y)", rotated])
    fix loop :: "'w modem_context \<Rightarrow> u32 \<Rightarrow> nat \<Rightarrow> (lxmodem_reception_status \<times> 'w modem_context) option" and c k n y
    assume IH: "\<And>c k n y. loop c k n = Some y \<Longrightarrow> keeps c (snd y)"
      and body: "do {
        (bReceived, c) \<leftarrow> lmodem_getchar_block c (2 + k + 2);
        if bReceived then do {
          rxStatus \<leftarrow> lxmodem_check_block_no_and_crc c 0 k;
          c \<leftarrow> lxmodem_build_and_send_reply c rxStatus;
          if rxStatus = LXMODEM_RECV_OK then Some (rxStatus, c)
          else if n + 1 \<ge> 10 then do { c \<leftarrow> lxmodem_build_and_send_cancel c; Some (rxStatus, c) }
          else loop c k (n + 1)
        } else loop c k n
      } = Some y"
    then obtain ok c1 where c1: "lmodem_getchar_block c (2 + k + 2) = Some (ok, c1)" "keeps c c1"
      by (auto split: bind_splits dest: getchar_block_kept)
    with body have "keeps c1 (snd y)"
      by (auto split: bind_splits if_splits dest: IH
          intro: keeps_trans [OF replies_kept(2)] keeps_trans [OF _ replies_kept(3)] replies_kept)
    with c1(2) show "keeps c (snd y)" by (rule keeps_trans)
  qed
  then show "lymodem_receive_block0_loop c k n = Some (st, c') \<Longrightarrow> keeps c c'" by force
qed

lemma wait_block0_kept [kept]: "lymodem_wait_block0 c n = Some (st, c') \<Longrightarrow> keeps c c'"
proof (induction c n arbitrary: st c' rule: lymodem_wait_block0.induct)
  case (1 c n)
  show ?case
  proof (cases "n < 10")
    case True
    with "1.prems" obtain y c1 where c1: "lmodem_getchar_byte c = Some (y, c1)"
      by (subst (asm) lymodem_wait_block0.simps) (auto split: bind_splits)
    with "1.prems" True "1.IH" [OF True c1] have "keeps c1 c'"
      by (subst (asm) lymodem_wait_block0.simps)
        (auto simp: lymodem_receive_block0_def split: option.splits if_splits intro: receive_block0_loop_kept)
    with getchar_byte_kept [OF c1] show ?thesis by (rule keeps_trans)
  next
    case False
    with "1.prems" show ?thesis by (subst (asm) lymodem_wait_block0.simps) simp
  qed
qed

lemma next_file_loop_kept: "lymodem_block_next_file_loop c n = Some c' \<Longrightarrow> keeps c c'"
proof (induction c n arbitrary: c' rule: lymodem_block_next_file_loop.induct)
  case (1 c n)
  show ?case
  proof (cases "n < 10")
    case True
    with "1.prems" obtain x c1 where c1: "lmodem_getchar_byte c = Some (x, c1)" "keeps c c1"
      by (subst (asm) lymodem_block_next_file_loop.simps) (auto split: bind_splits dest: getchar_byte_kept)
    show ?thesis
    proof (cases x)
      case None
      with "1.prems" True c1 "1.IH"(1) [OF True c1(1)] show ?thesis
        by (subst (asm) lymodem_block_next_file_loop.simps) (auto intro: keeps_trans)
    next
      case (Some h)
      let ?get = "if h = SOH then lmodem_getchar_block c1 (128 + 2 + 2)
         else if h = STX then lmodem_getchar_block c1 (1024 + 2 + 2) else Some (True, c1)"
      from "1.prems" True c1 Some obtain ok c2 where c2: "?get = Some (ok, c2)"
        by (subst (asm) lymodem_block_next_file_loop.simps) (auto split: bind_splits)
      then have k2: "keeps c1 c2" by (auto split: if_splits dest: getchar_block_kept)
      from "1.prems" True c1 Some c2 "1.IH"(2) [OF True c1(1) refl Some c2 refl] have "keeps c2 c'"
        by (subst (asm) lymodem_block_next_file_loop.simps) (auto split: bind_splits if_splits dest: kept)
      with c1(2) k2 show ?thesis by (blast intro: keeps_trans)
    qed
  next
    case False
    with "1.prems" show ?thesis by (subst (asm) lymodem_block_next_file_loop.simps) simp
  qed
qed

lemma next_file_kept [kept]: "lymodem_block_next_file c = Some c' \<Longrightarrow> keeps c c'"
  by (auto simp: lymodem_block_next_file_def split: bind_splits
      intro: keeps_trans [OF replies_kept(1) next_file_loop_kept])

text \<open>The file name's buffer has the announced size, and holds a string if it is marked valid.\<close>

definition name_ok :: "lmodem_file_characteristics \<Rightarrow> bool" where
  "name_ok fd \<longleftrightarrow>
     (\<forall>b. filename fd = Some b \<longrightarrow> 0 < unat (filename_size fd) \<and> unat (filename_size fd) \<le> length b) \<and>
     (valid fd AND LMODEM_METADATA_FILENAME_VALID = LMODEM_METADATA_FILENAME_VALID \<longrightarrow>
       (\<exists>b. filename fd = Some b \<and> 0 \<in> set b))"

lemma mem_write_set: "mem_write b i x = Some b' \<Longrightarrow> x \<in> set b'"
  by (auto simp: mem_write_def set_update_memI split: if_splits)

lemma strncpy_length: "strncpy dst i src n = Some dst' \<Longrightarrow> length dst' = length dst"
  by (auto simp: strncpy_def split: bind_splits dest: mem_put_length)

lemma snprintf_length: "snprintf dst i n txt = Some (k, dst') \<Longrightarrow> length dst' = length dst"
  by (auto simp: snprintf_def split: bind_splits if_splits dest: mem_put_length)

lemma next_string_length:
  "lymodem_get_next_meta_data_string buf p pEnd = Some (r, buf', p') \<Longrightarrow> length buf' = length buf"
  by (auto simp: lymodem_get_next_meta_data_string_def split: bind_splits if_splits dest: mem_write_length)

lemma store_field_name:
  "lymodem_store_field k pData fd = Some (ok, fd') \<Longrightarrow>
    filename fd' = filename fd \<and> filename_size fd' = filename_size fd"
  by (auto simp: lymodem_store_field_def split: bind_splits if_splits)

lemma fields_name:
  "lymodem_meta_data_fields ks buf p pEnd fd = Some (ok, buf', fd') \<Longrightarrow>
    length buf' = length buf \<and> filename fd' = filename fd \<and> filename_size fd' = filename_size fd"
proof (induction ks buf p pEnd fd arbitrary: ok buf' fd' rule: lymodem_meta_data_fields.induct)
  case (2 k ks buf p pEnd fd)
  from "2.prems" obtain r b1 p1 where nxt: "lymodem_get_next_meta_data_string buf p pEnd = Some (r, b1, p1)"
    by (auto split: bind_splits)
  note len = next_string_length [OF nxt]
  show ?case
  proof (cases r)
    case None
    with "2.prems" nxt len show ?thesis by simp
  next
    case (Some q)
    with "2.prems" nxt obtain ok1 fd1 where st: "lymodem_store_field k (drop q b1) fd = Some (ok1, fd1)"
      by (auto split: bind_splits)
    note name = store_field_name [OF st]
    show ?thesis
    proof (cases ok1)
      case True
      with "2.prems" nxt Some st have "lymodem_meta_data_fields ks b1 p1 pEnd fd1 = Some (ok, buf', fd')" by simp
      from "2.IH" [OF nxt refl refl Some st refl True this] len name show ?thesis by simp
    next
      case False
      with "2.prems" nxt Some st len name show ?thesis by simp
    qed
  qed
qed simp

lemma meta_data_name:
  assumes "lymodem_get_meta_data c = Some (ok, c')"
  shows "\<exists>buf fd. c' = c\<lparr>blk_buffer := (blk_buffer c)\<lparr>line_buffer := buf\<rparr>, file_data := fd\<rparr> \<and>
    length buf = length (line_buffer (blk_buffer c)) \<and> filename fd = filename (file_data c) \<and>
    filename_size fd = filename_size (file_data c)"
  using assms
  by (auto simp: lymodem_get_meta_data_def Let_def simp del: lymodem_meta_data_fields.simps split: bind_splits if_splits
      dest!: fields_name) blast

lemma decode_block0_name:
  assumes "lymodem_decode_block0 c = Some (ok, c')" and "name_ok (file_data c)"
  shows "\<exists>buf fd. c' = c\<lparr>blk_buffer := (blk_buffer c)\<lparr>line_buffer := buf\<rparr>, file_data := fd\<rparr> \<and>
    length buf = length (line_buffer (blk_buffer c)) \<and> name_ok fd"
proof -
  from assms(1) obtain name name1 x where
    name: "filename (file_data c) = Some name" "mem_write name 0 0 = Some name1"
    and x: "mem_read (line_buffer (blk_buffer c)) 2 = Some x"
    by (auto simp: lymodem_decode_block0_def lmodem_metadata_clean_def Let_def split: bind_splits)
  let ?fd = "file_data c\<lparr>filename := Some name1, modif_date := 0, permission := 0, serial_number := 0,
      file_size := 0, valid := 0\<rparr>" and ?n = "unat (filename_size (file_data c) - 1)"
  have len: "length name1 = length name" and fits: "0 < unat (filename_size (file_data c))"
    "unat (filename_size (file_data c)) \<le> length name"
    using name assms(2) by (auto simp: name_ok_def dest: mem_write_length)
  show ?thesis
  proof (cases "x = 0")
    case True
    with assms(1) name x have "c' = c\<lparr>file_data := ?fd\<rparr>"
      by (simp add: lymodem_decode_block0_def lmodem_metadata_clean_def)
    moreover have "name_ok ?fd" using fits len by (simp add: name_ok_def LMODEM_METADATA_FILENAME_VALID_def)
    ultimately show ?thesis by (intro exI [of _ "line_buffer (blk_buffer c)"] exI [of _ ?fd]) simp
  next
    case False
    with assms(1) name x obtain name2 name3 where
      n2: "strncpy name1 0 (drop 2 (line_buffer (blk_buffer c))) ?n = Some name2" and
      n3: "mem_write name2 ?n 0 = Some name3"
      by (auto simp: lymodem_decode_block0_def lmodem_metadata_clean_def split: bind_splits)
    let ?fd' = "?fd\<lparr>filename := Some name3, valid := valid ?fd OR LMODEM_METADATA_FILENAME_VALID\<rparr>"
    have run: "lymodem_get_meta_data (c\<lparr>file_data := ?fd'\<rparr>) = Some (ok, c')"
      using assms(1) name x False n2 n3 by (simp add: lymodem_decode_block0_def lmodem_metadata_clean_def)
    have "length name3 = length name" "0 \<in> set name3"
      using strncpy_length [OF n2] mem_write_length [OF n3] mem_write_set [OF n3] len by simp_all
    then have "name_ok fd" if "filename fd = Some name3" "filename_size fd = filename_size (file_data c)" for fd
      using fits that by (simp add: name_ok_def)
    with meta_data_name [OF run] show ?thesis by auto
  qed
qed

text \<open>A reception appends to the file, and does not move the read offset.\<close>

definition same_file :: "lmodem_buffer \<Rightarrow> lmodem_buffer \<Rightarrow> bool" where
  "same_file b b' \<longleftrightarrow> ram_read_offset b' = ram_read_offset b \<and> ram_max_size b' = ram_max_size b \<and>
     length (ram_buffer b') = length (ram_buffer b)"

lemma buffer_write_same: "lmodem_buffer_write b src sz = Some (n, b') \<Longrightarrow> same_file b b'"
  by (auto simp: lmodem_buffer_write_def same_file_def Let_def split: bind_splits if_splits dest: mem_put_length)

lemma header_kept: "lxmodem_receive_header h l c = Some (st, l', c') \<Longrightarrow> keeps c c'"
  by (auto simp: lxmodem_receive_header_def lxmodem_receive_block_def Let_def split: bind_splits if_splits
      intro: getchar_block_kept)

lemma retry_kept: "lxmodem_receive_retry l c = Some (l', c') \<Longrightarrow> keeps c c'"
  by (auto simp: lxmodem_receive_retry_def Let_def split: bind_splits if_splits intro: replies_kept)

lemma keeps_ramfile: "keeps c c' \<Longrightarrow> ramfile c' = ramfile c"
  by (simp add: keeps_def)

lemma store_same: "lxmodem_receive_store l c = Some (l', c') \<Longrightarrow> same_file (ramfile c) (ramfile c')"
  by (auto simp: lxmodem_receive_store_def Let_def split: bind_splits if_splits
      dest!: buffer_write_same keeps_ramfile [OF putchar_kept])

lemma same_file_refl [simp]: "same_file b b"
  by (simp add: same_file_def)

lemma step_same: "lxmodem_receive_step l c = Some (l', c') \<Longrightarrow> same_file (ramfile c) (ramfile c')"
  by (auto simp: lxmodem_receive_step_def split: bind_splits option.splits if_splits
      dest!: keeps_ramfile [OF getchar_byte_kept] keeps_ramfile [OF header_kept] keeps_ramfile [OF replies_kept(2)]
        store_same keeps_ramfile [OF retry_kept])

lemma receive_same: "lxmodem_receive c = Some (r, c') \<Longrightarrow> same_file (ramfile c) (ramfile c')"
proof -
  have loop: "same_file (ramfile c) (ramfile (snd y))" if "lxmodem_receive_loop l c = Some y"
    for l y and c :: "'w modem_context"
    using that
  proof (rule lxmodem_receive_loop.raw_induct
      [where P = "\<lambda>l c y. same_file (ramfile c) (ramfile (snd y))", rotated])
    fix loop :: "rx_locals \<Rightarrow> 'w modem_context \<Rightarrow> (rx_locals \<times> 'w modem_context) option" and l c y
    assume IH: "\<And>l c y. loop l c = Some y \<Longrightarrow> same_file (ramfile c) (ramfile (snd y))"
      and body: "(if bFinished l then Some (l, c) else do { (l, c) \<leftarrow> lxmodem_receive_step l c; loop l c }) = Some y"
    from body show "same_file (ramfile c) (ramfile (snd y))"
      by (cases y) (auto simp: same_file_def split: if_splits bind_splits dest!: step_same IH)
  qed
  show "lxmodem_receive c = Some (r, c') \<Longrightarrow> same_file (ramfile c) (ramfile c')"
    by (auto simp: lxmodem_receive_def split: bind_splits dest!: loop keeps_ramfile [OF replies_kept(1)])
qed

section \<open>Sending by YMODEM\<close>

lemma putchar_line_kept [kept]: "putchar_line c n = Some c' \<Longrightarrow> keeps c c'"
  by (auto simp: putchar_line_def split: bind_splits intro: putchar_kept)

lemma reemit_kept [kept]: "lxmode_reemit_previous_block c = Some c' \<Longrightarrow> keeps c c'"
  by (simp add: lxmode_reemit_previous_block_def putchar_line_kept)

lemma wait_ack_kept: "lymodem_wait_ack c x ok n = Some (ok', x', c') \<Longrightarrow> keeps c c'"
proof -
  have "keeps c (snd (snd y))" if "lymodem_wait_ack c x ok n = Some y" for c :: "'w modem_context" and x ok n y
    using that
  proof (rule lymodem_wait_ack.raw_induct [where P = "\<lambda>c x ok n y. keeps c (snd (snd y))", rotated])
    fix loop :: "'w modem_context \<Rightarrow> u8 \<Rightarrow> bool \<Rightarrow> nat \<Rightarrow> (bool \<times> u8 \<times> 'w modem_context) option" and c x ok n y
    assume IH: "\<And>c x ok n y. loop c x ok n = Some y \<Longrightarrow> keeps c (snd (snd y))"
      and body: "(if n < 10 then do {
        (got, c) \<leftarrow> lmodem_wait_reception c;
        let receivedChar = (case got of Some x \<Rightarrow> x | None \<Rightarrow> x);
        if receivedChar = ACK then Some (True, receivedChar, c)
        else if receivedChar = CAN then Some (False, receivedChar, c)
        else if receivedChar = NAK then do {
          c \<leftarrow> lxmode_reemit_previous_block c;
          loop c receivedChar ok (n + 1)
        } else loop c receivedChar ok n
      } else Some (ok, x, c)) = Some y"
    show "keeps c (snd (snd y))"
    proof (cases "n < 10")
      case True
      with body obtain got c1 where c1: "wait_char c 0 = Some (got, c1)"
        by (auto simp: lmodem_wait_reception_def split: bind_splits)
      with body True have "keeps c1 (snd (snd y))"
        by (auto simp: lmodem_wait_reception_def Let_def split: bind_splits if_splits
            dest: IH intro: keeps_trans [OF reemit_kept])
      with wait_char_kept [OF c1] show ?thesis by (rule keeps_trans)
    next
      case False
      with body show ?thesis by auto
    qed
  qed
  then show "lymodem_wait_ack c x ok n = Some (ok', x', c') \<Longrightarrow> keeps c c'" by force
qed

lemma send_block0_kept:
  assumes "send_block0 c buf k = Some c'" and "length buf = length (line_buffer (blk_buffer c))"
  shows "keeps c c'"
proof -
  from assms(1) obtain buf' c1 where buf': "length buf' = length buf"
    and p: "putchar_line (c\<lparr>blk_buffer := (blk_buffer c)\<lparr>line_buffer := buf'\<rparr>\<rparr>) (1 + 2 + k + 2) = Some c1"
    and c': "c' = c1\<lparr>blk_buffer := (blk_buffer c1)\<lparr>line_current_size := 1 + 2 + k + 2\<rparr>\<rparr>"
    by (auto simp: send_block0_def Let_def split: bind_splits dest!: mem_write_length)
  have "keeps c (c\<lparr>blk_buffer := (blk_buffer c)\<lparr>line_buffer := buf'\<rparr>\<rparr>)"
    using buf' assms(2) by (intro keeps_line(1)) simp
  also note putchar_line_kept [OF p]
  also have "keeps c1 c'" unfolding c' by (rule keeps_line(3))
  finally show ?thesis .
qed

lemma write_block0_length: "write_block0_data buf maxSize fd = Some (buf', n) \<Longrightarrow> length buf' = length buf"
  by (auto simp: write_block0_data_def Let_def split: bind_splits if_splits
      dest!: strncpy_length mem_write_length snprintf_length)

lemma build_block0_kept: "lymodem_build_and_send_block0 c = Some (ok, c') \<Longrightarrow> keeps c c'"
  by (auto simp: lymodem_build_and_send_block0_def Let_def mem_set_def split: bind_splits if_splits
      dest!: mem_put_length mem_write_length write_block0_length send_block0_kept intro: keeps_line)

lemma end_of_bach_kept: "lymodem_send_end_of_bach c = Some c' \<Longrightarrow> keeps c c'"
  by (auto simp: lymodem_send_end_of_bach_def mem_set_def split: bind_splits
      dest!: mem_put_length mem_write_length send_block0_kept)

end
