(* ===== verification/Ymodem_Link.thy ===== *)
theory Ymodem_Link
  imports Xmodem_Link Ymodem_Kept
begin

text \<open>
  YMODEM from end to end: the block 0 the sender builds is the one the receiver decodes, and a
  whole transfer over a port that loses nothing gives the receiver the sender's file, cut to its
  size, with its name and metadata. The sender's line buffer needs one byte more than its
  announced size, which \<open>lymodem_build_and_send_block0\<close> writes.
\<close>

section \<open>Numbers in the metadata\<close>

lemma ucast_u64: "(ucast (word_of_int i :: 64 word) :: u32) = word_of_int i"
  by (rule bit_word_eqI) (simp add: bit_simps)

lemma getValue_digits:
  assumes "base = 8 \<or> base = 10" and "n < 2 ^ 64"
  shows "lymodem_getValue (digits base n @ 0 # rest) base = Some (word_of_nat n, True)"
    and "lymodem_getValue (0x2D # digits base n @ 0 # rest) base = Some (- word_of_nat n, True)"
proof -
  have zero: "\<not> is_digit base 0" by (simp add: is_digit_def)
  have rd: "mem_read (digits base n @ 0 # rest) (length (digits base n)) = Some 0"
    "mem_read (0x2D # digits base n @ 0 # rest) (Suc (length (digits base n))) = Some 0"
    by (simp_all add: mem_read_def)
  have down: "(ucast (word_of_nat n :: 64 word) :: u32) = word_of_nat n"
    "(ucast (- word_of_nat n :: 64 word) :: u32) = - word_of_nat n"
    using ucast_u64 [of "int n"] ucast_u64 [of "- int n"] by simp_all
  show "lymodem_getValue (digits base n @ 0 # rest) base = Some (word_of_nat n, True)"
    "lymodem_getValue (0x2D # digits base n @ 0 # rest) base = Some (- word_of_nat n, True)"
    using strtoul_digits [OF _ _ assms(2) zero, of rest] assms(1) rd down
    by (auto simp: lymodem_getValue_def)
qed

lemma digits_word: "2 \<le> base \<Longrightarrow> base \<le> 10 \<Longrightarrow> \<forall>x \<in> set (digits base n). x \<noteq> 0x20 \<and> x \<noteq> 0"
  using digits_correct [of base n] digit_not_space by blast

lemma is_field_o: "is_field 8 (format_o x) x"
  using getValue_digits(1) [of 8 "unat x"] digits_word [of 8 "unat x"] unat_u32_less [of x]
  by (simp add: is_field_def format_o_def of_nat_unat)

text \<open>A size of 2 GiB or more is printed as a negative number, and read back as what it was.\<close>

lemma is_field_d: "is_field 10 (format_d x) x"
proof (cases "sint x < 0")
  case True
  then have x: "2 ^ 31 \<le> unat x" "sint x = int (unat x) - 2 ^ 32" by (auto simp: sint_u32 split: if_splits)
  then have n: "nat (- sint x) = 2 ^ 32 - unat x" by simp
  have "- (word_of_nat (2 ^ 32 - unat x) :: u32) = x"
    using unat_u32_less [of x] by (simp add: of_nat_diff of_nat_unat)
  with True getValue_digits(2) [of 10 "2 ^ 32 - unat x"] digits_word [of 10 "2 ^ 32 - unat x"] show ?thesis
    by (simp add: is_field_def format_d_def n)
next
  case False
  then have "nat (sint x) = unat x"
    using unat_u32_less [of x] by (auto simp: sint_u32 split: if_splits)
  with False show ?thesis
    using getValue_digits(1) [of 10 "unat x"] digits_word [of 10 "unat x"] unat_u32_less [of x]
    by (simp add: is_field_def format_d_def of_nat_unat)
qed

lemma permission_bits:
  "(ucast (ucast p OR (0x8000 :: u32)) :: u16) AND NOT 0x8000 = (p :: u16) AND NOT 0x8000"
proof -
  have m: "bit (0x8000 :: u16) n \<longleftrightarrow> n = 15" for n
  proof -
    have "(0x8000 :: u16) = push_bit 15 1" by simp
    then show ?thesis by (simp only: bit_push_bit_iff bit_1_iff possible_bit_word) auto
  qed
  show ?thesis
    by (rule bit_word_eqI)
      (auto simp only: bit_and_iff bit_or_iff bit_ucast_iff bit_not_iff m bit_8000 possible_bit_word, simp)
qed

section \<open>Block 0 from sender to receiver\<close>

text \<open>The metadata the receiver has after the sender's: the top bit of the permission is dropped.\<close>

definition received_meta_data ::
  "lmodem_file_characteristics \<Rightarrow> u8 list \<Rightarrow> lmodem_file_characteristics \<Rightarrow> bool" where
  "received_meta_data fd name fd' \<longleftrightarrow>
     (\<exists>more. filename fd' = Some (name @ 0 # more)) \<and> file_size fd' = file_size fd \<and>
     modif_date fd' = modif_date fd \<and> permission fd' = permission fd AND NOT 0x8000 \<and>
     serial_number fd' = serial_number fd \<and> valid fd' = 0x1F"

lemma decode_sent_block0:
  assumes name: "is_text name" "name \<noteq> []"
    and buf: "line_buffer (blk_buffer c) = [h, m] @ block0_data fd name @ rest"
    and fb: "filename (file_data c) = Some fbuf" "length name < unat (filename_size (file_data c))"
      "unat (filename_size (file_data c)) \<le> length fbuf"
    and M: "length (meta_data_text fd 4) + 1 \<le> unat (line_max_size (blk_buffer c))"
  shows "\<exists>buf' fd'. lymodem_decode_block0 c =
      Some (True, c\<lparr>blk_buffer := (blk_buffer c)\<lparr>line_buffer := buf'\<rparr>, file_data := fd'\<rparr>) \<and>
    length buf' = length (line_buffer (blk_buffer c)) \<and> received_meta_data fd name fd'"
proof -
  let ?f0 = "format_d (file_size fd)" and ?f1 = "format_o (modif_date fd)"
    and ?f2 = "format_o (ucast (permission fd) OR 0x8000)" and ?f3 = "format_o (serial_number fd)"
  obtain rest' where data: "block0_data fd name @ rest = name @ 0 # ?f0 @ 0x20 # ?f1 @ 0x20 # ?f2 @ 0x20 # ?f3 @ 0 # rest'"
    by (simp add: block0_data_def block0_text_def meta_data_text_def Let_def)
  have len: "length ?f0 + length ?f1 + length ?f2 + length ?f3 + 4 \<le> unat (line_max_size (blk_buffer c))"
    using M by (simp add: meta_data_text_def Let_def)
  from decode_block0_returns [OF name _ is_field_d is_field_o is_field_o is_field_o fb len] buf data
  obtain buf' name' where "lymodem_decode_block0 c = Some (True, c\<lparr>blk_buffer := (blk_buffer c)\<lparr>line_buffer := buf'\<rparr>,
      file_data := with_fields (file_size fd) (modif_date fd) (ucast (permission fd) OR 0x8000) (serial_number fd)
        (file_data c\<lparr>filename := Some (name @ 0 # name'), valid := LMODEM_METADATA_FILENAME_VALID\<rparr>)\<rparr>)"
    "length buf' = length (line_buffer (blk_buffer c))" by (metis append_Cons append_Nil)
  moreover have "received_meta_data fd name
      (with_fields (file_size fd) (modif_date fd) (ucast (permission fd) OR 0x8000) (serial_number fd)
        (file_data c\<lparr>filename := Some (name @ 0 # name'), valid := LMODEM_METADATA_FILENAME_VALID\<rparr>))"
    using permission_bits
    by (simp add: received_meta_data_def with_fields_def LMODEM_METADATA_FILENAME_VALID_def
        LMODEM_METADATA_FILESIZE_VALID_def LMODEM_METADATA_MODIFDATE_VALID_def
        LMODEM_METADATA_PERMISSION_VALID_def LMODEM_METADATA_SERIAL_VALID_def)
  ultimately show ?thesis by blast
qed

section \<open>The sender over the wire\<close>

lemma wait_of_wire:
  assumes "on_wire c" and "incoming (world c) = x # rest"
  shows "\<exists>w. lmodem_wait_reception_of c x = Some (True, c\<lparr>world := w\<rparr>) \<and> incoming w = rest \<and>
    sent w = sent (world c) \<and> on_wire (c\<lparr>world := w\<rparr>)"
proof -
  have "getchar_cb c = Some wire_getchar" "wire_wf (world c)" using assms(1) by (simp_all add: on_wire_def)
  from wire_getchar_byte [OF this assms(2)] show ?thesis using assms(1)
    by (auto simp: lmodem_wait_reception_of_def wait_reception_of.simps on_wire_def)
qed

lemma wait_ack_wire:
  assumes "on_wire c" and "incoming (world c) = ACK # rest" and "n < 10"
  shows "\<exists>w. lymodem_wait_ack c x ok n = Some (True, ACK, c\<lparr>world := w\<rparr>) \<and> incoming w = rest \<and>
    sent w = sent (world c) \<and> on_wire (c\<lparr>world := w\<rparr>)"
proof -
  have "getchar_cb c = Some wire_getchar" "wire_wf (world c)" using assms(1) by (simp_all add: on_wire_def)
  from wire_getchar_byte [OF this assms(2)] show ?thesis using assms(1,3)
    by (auto simp: lymodem_wait_ack.simps [of c] lmodem_wait_reception_def wait_char.simps [of c] on_wire_def)
qed

text \<open>
  Each NAK repeats the block in the line buffer. Ten of them end the wait, and count as a success.
\<close>

lemma wait_ack_naks:
  "on_wire c \<Longrightarrow> line_buffer (blk_buffer c) = f @ r \<Longrightarrow> unat (line_current_size (blk_buffer c)) = length f \<Longrightarrow>
    incoming (world c) = replicate k NAK @ (if n + k < 10 then ACK # rest else rest) \<Longrightarrow> n + k \<le> 10 \<Longrightarrow>
    \<exists>w y. lymodem_wait_ack c x True n = Some (True, y, c\<lparr>world := w\<rparr>) \<and> incoming w = rest \<and>
      sent w = sent (world c) @ concat (replicate k f) \<and> on_wire (c\<lparr>world := w\<rparr>)"
proof (induction k arbitrary: c n x)
  case 0
  show ?case
  proof (cases "n < 10")
    case True
    with 0 wait_ack_wire [OF 0(1) _ True, of rest x True] show ?thesis by auto
  next
    case False
    with 0 show ?thesis
      by (intro exI [of _ "world c"] exI [of _ x]) (simp add: lymodem_wait_ack.simps [of c])
  qed
next
  case (Suc k)
  let ?tail = "replicate k NAK @ (if Suc n + k < 10 then ACK # rest else rest)"
  have cb: "getchar_cb c = Some wire_getchar" "wire_wf (world c)" "putchar_cb c = Some wire_putchar"
    and n: "n < 10" and inc: "incoming (world c) = NAK # ?tail"
    using Suc.prems by (simp_all add: on_wire_def)
  from wire_getchar_byte [OF cb(1,2) inc] obtain w1 where
    got: "lmodem_getchar_byte c = Some (Some NAK, c\<lparr>world := w1\<rparr>)"
    and w1: "incoming w1 = ?tail" "sent w1 = sent (world c)" "wire_wf w1" by blast
  let ?c1 = "c\<lparr>world := wire_putchar w1 f\<rparr>"
  have "lxmode_reemit_previous_block (c\<lparr>world := w1\<rparr>) = Some ?c1"
    using reemit_returns [of "c\<lparr>world := w1\<rparr>" wire_putchar f r] cb(3) Suc.prems(2,3) by simp
  then have rec: "lymodem_wait_ack c x True n = lymodem_wait_ack ?c1 NAK True (Suc n)"
    using got n by (subst lymodem_wait_ack.simps) (simp add: lmodem_wait_reception_def wait_char.simps [of c])
  have "on_wire ?c1" "line_buffer (blk_buffer ?c1) = f @ r" "unat (line_current_size (blk_buffer ?c1)) = length f"
    "incoming (world ?c1) = ?tail" "Suc n + k \<le> 10"
    using Suc.prems(1-3,5) w1 by (simp_all add: on_wire_def)
  from Suc.IH [OF this] rec w1(2) show ?case by auto
qed

text \<open>The block that ends the batch: a block 0 of zeros.\<close>

definition end_frame :: "crc16_context \<Rightarrow> u8 list" where
  "end_frame ctx = block0_frame ctx (replicate 128 0)"

lemma end_of_bach_returns:
  assumes p: "putchar_cb c = Some p" and M: "133 \<le> unat (line_max_size (blk_buffer c))"
    "unat (line_max_size (blk_buffer c)) \<le> length (line_buffer (blk_buffer c))"
  shows "\<exists>buf. lymodem_send_end_of_bach c = Some (c\<lparr>world := p (world c) (end_frame (crc16 c)),
      blk_buffer := (blk_buffer c)\<lparr>line_buffer := buf, line_current_size := 133\<rparr>\<rparr>) \<and>
    length buf = length (line_buffer (blk_buffer c))"
proof -
  let ?M = "unat (line_max_size (blk_buffer c))" and ?old = "line_buffer (blk_buffer c)"
  let ?z = "replicate 128 0 :: u8 list" and ?rest = "replicate (?M - 131) 0 @ drop ?M ?old"
  have clear: "mem_set ?old 0 0 ?M = Some (replicate ?M 0 @ drop ?M ?old)"
    using M by (simp add: mem_set_def mem_put_def)
  have "replicate ?M (0 :: u8) = replicate (3 + 128 + (?M - 131)) 0" using M by simp
  then have rep: "replicate ?M 0 @ drop ?M ?old = [0, 0, 0] @ ?z @ ?rest"
    by (simp only: replicate_add append_assoc) (simp add: numeral_3_eq_3)
  have w: "mem_write ([0, 0, 0] @ ?z @ ?rest) 0 SOH = Some ([SOH, 0, 0] @ ?z @ ?rest)"
    "mem_write ([SOH, 0, 0] @ ?z @ ?rest) 1 0 = Some ([SOH, 0, 0] @ ?z @ ?rest)"
    "mem_write ([SOH, 0, 0] @ ?z @ ?rest) 2 (NOT 0) = Some ([SOH, 0, NOT 0] @ ?z @ ?rest)"
    by (simp_all add: mem_write_def numeral_2_eq_2)
  have room: "2 \<le> length ?rest" using M by simp
  have send: "send_block0 c ([SOH, 0, NOT 0] @ ?z @ ?rest) 128 = Some (c\<lparr>world := p (world c) (end_frame (crc16 c)),
      blk_buffer := (blk_buffer c)\<lparr>line_buffer := end_frame (crc16 c) @ drop 2 ?rest,
        line_current_size := word_of_nat (length (end_frame (crc16 c)))\<rparr>\<rparr>)"
    by (rule send_block0_returns [OF p _ _ _ refl room end_frame_def]) simp_all
  have len: "length (end_frame (crc16 c)) = 133"
    by (simp add: end_frame_def block0_frame_def length_block_frame)
  have "lymodem_send_end_of_bach c = send_block0 c ([SOH, 0, NOT 0] @ ?z @ ?rest) 128"
    unfolding lymodem_send_end_of_bach_def by (simp only: clear rep w bind.bind_lunit)
  with send len show ?thesis using M
    by (intro exI [of _ "end_frame (crc16 c) @ drop 2 ?rest"]) simp
qed

text \<open>What a YMODEM sender sends, and what it waits for.\<close>

definition y_stream :: "crc16_context \<Rightarrow> lmodem_file_characteristics \<Rightarrow> u8 list \<Rightarrow> u8 list list \<Rightarrow> u8 list" where
  "y_stream ctx fd name chs =
     block0_frame ctx (block0_data fd name) @ tx_stream True ctx 1 chs @ end_frame ctx"

definition y_answers :: "nat \<Rightarrow> u8 list" where
  "y_answers n = [char_C, ACK] @ char_C # replicate (n + 1) ACK @ [char_C, ACK]"

text \<open>The sender's line buffer: announced for 1K blocks, with one byte to spare.\<close>

definition y_tx_ready :: "'w modem_context \<Rightarrow> u8 list \<Rightarrow> bool" where
  "y_tx_ready c name \<longleftrightarrow>
     protocol c = YMODEM \<and> ram_wf (ramfile c) \<and>
     1029 \<le> unat (line_max_size (blk_buffer c)) \<and>
     unat (line_max_size (blk_buffer c)) < length (line_buffer (blk_buffer c)) \<and>
     is_text name \<and> (\<exists>more. filename (file_data c) = Some (name @ 0 # more)) \<and>
     all_meta_data (valid (file_data c)) \<and> filename_valid c \<and>
     length (block0_text (file_data c) name) \<le> 1023"

lemma y_mode: "protocol c = YMODEM \<Longrightarrow> tx_block_mode c = (1024, True)"
  by (simp add: tx_block_mode_def)

lemma emit_block0_wire:
  assumes wire: "on_wire c" and ready: "y_tx_ready c name"
    and inc: "incoming (world c) = char_C # replicate k NAK @ (if k < 10 then ACK # rest else rest)" and k: "k \<le> 10"
  shows "\<exists>c1 c2 x c'. lmodem_wait_reception_of c char_C = Some (True, c1) \<and>
    lymodem_build_and_send_block0 c1 = Some (True, c2) \<and> lymodem_wait_ack c2 0 True 0 = Some (True, x, c') \<and>
    same_setup c c' \<and> on_wire c' \<and> ramfile c' = ramfile c \<and> incoming (world c') = rest \<and>
    sent (world c') = sent (world c) @ concat (replicate (Suc k) (block0_frame (crc16 c) (block0_data (file_data c) name)))"
proof -
  let ?answers = "replicate k NAK @ (if k < 10 then ACK # rest else rest)"
  obtain w1 where w1: "lmodem_wait_reception_of c char_C = Some (True, c\<lparr>world := w1\<rparr>)"
    "incoming w1 = ?answers" "sent w1 = sent (world c)" "on_wire (c\<lparr>world := w1\<rparr>)"
    using wait_of_wire [OF wire inc] by blast
  let ?c1 = "c\<lparr>world := w1\<rparr>" and ?f = "block0_frame (crc16 c) (block0_data (file_data c) name)"
  obtain more where name: "is_text name" "filename (file_data c) = Some (name @ 0 # more)"
    using ready by (auto simp: y_tx_ready_def)
  have p: "putchar_cb ?c1 = Some wire_putchar" using wire by (simp add: on_wire_def)
  have size: "block0_size (block0_text (file_data c) name) \<le> 1024" by (simp add: block0_size_def)
  have "\<exists>r. lymodem_build_and_send_block0 ?c1 = Some (True, ?c1\<lparr>world := wire_putchar (world ?c1) ?f, blk_buffer :=
      (blk_buffer ?c1)\<lparr>line_buffer := ?f @ r, line_current_size := word_of_nat (length ?f)\<rparr>\<rparr>) \<and>
    length (?f @ r) = length (line_buffer (blk_buffer ?c1))"
    by (rule build_block0_returns [OF p name(1), of more])
      (use name ready size in \<open>auto simp: y_tx_ready_def filename_valid_def\<close>)
  then obtain r where build: "lymodem_build_and_send_block0 ?c1 = Some (True, ?c1\<lparr>world := wire_putchar w1 ?f,
      blk_buffer := (blk_buffer c)\<lparr>line_buffer := ?f @ r, line_current_size := word_of_nat (length ?f)\<rparr>\<rparr>)"
    "length (?f @ r) = length (line_buffer (blk_buffer c))" by auto
  let ?c2 = "?c1\<lparr>world := wire_putchar w1 ?f, blk_buffer :=
      (blk_buffer c)\<lparr>line_buffer := ?f @ r, line_current_size := word_of_nat (length ?f)\<rparr>\<rparr>"
  have "length ?f < 2 ^ 32" using ready
    by (auto simp: y_tx_ready_def block0_frame_def length_block_frame block0_data_def block0_size_def Let_def)
  then have c2: "on_wire ?c2" "line_buffer (blk_buffer ?c2) = ?f @ r"
    "unat (line_current_size (blk_buffer ?c2)) = length ?f"
    "incoming (world ?c2) = replicate k NAK @ (if 0 + k < 10 then ACK # rest else rest)" "0 + k \<le> 10"
    using w1 k by (simp_all add: on_wire_def unat_u32_of_nat)
  from wait_ack_naks [OF this] obtain w2 x where
    "lymodem_wait_ack ?c2 0 True 0 = Some (True, x, ?c2\<lparr>world := w2\<rparr>)" "incoming w2 = rest"
    "sent w2 = sent (world ?c2) @ concat (replicate k ?f)" "on_wire (?c2\<lparr>world := w2\<rparr>)" by blast
  moreover have "same_setup c (?c2\<lparr>world := w2\<rparr>)" using build(2) by (simp add: same_setup_def)
  ultimately show ?thesis using w1 build
    by (intro exI [of _ ?c1] exI [of _ ?c2] exI [of _ x] exI [of _ "?c2\<lparr>world := w2\<rparr>"]) simp
qed

lemma y_emit_naks:
  assumes wire: "on_wire c" and ready: "y_tx_ready c name"
    and chs: "chs = chunks 1024 (ram_unread (ramfile c))" "chs \<noteq> []"
    and small: "sum_list (map block_size chs) < 2 ^ 31"
    and inc: "incoming (world c) = char_C # replicate k NAK @ (if k < 10 then [ACK] else []) @
      char_C # replicate (length chs + 1) ACK @ [char_C, ACK] @ rest" and k: "k \<le> 10"
  shows "\<exists>c'. lymodem_emit c = Some (word_of_nat (sum_list (map block_size chs)), c') \<and>
    incoming (world c') = rest \<and>
    sent (world c') = sent (world c) @
      concat (replicate (Suc k) (block0_frame (crc16 c) (block0_data (file_data c) name))) @
      tx_stream True (crc16 c) 1 chs @ end_frame (crc16 c)"
proof -
  let ?sum = "word_of_nat (sum_list (map block_size chs)) :: u32"
  let ?rest = "char_C # replicate (length chs + 1) ACK @ [char_C, ACK] @ rest"
  have "incoming (world c) = char_C # replicate k NAK @ (if k < 10 then ACK # ?rest else ?rest)"
    using inc by simp
  from emit_block0_wire [OF wire ready this k] obtain c1 c2 x c3 where
    b0: "lmodem_wait_reception_of c char_C = Some (True, c1)" "lymodem_build_and_send_block0 c1 = Some (True, c2)"
      "lymodem_wait_ack c2 0 True 0 = Some (True, x, c3)"
    and c3: "same_setup c c3" "on_wire c3" "ramfile c3 = ramfile c"
      "incoming (world c3) = char_C # replicate (length chs + 1) ACK @ [char_C, ACK] @ rest"
      "sent (world c3) = sent (world c) @
        concat (replicate (Suc k) (block0_frame (crc16 c) (block0_data (file_data c) name)))" by blast
  have y: "protocol c3 = YMODEM" "crc16 c3 = crc16 c" "line_max_size (blk_buffer c3) = line_max_size (blk_buffer c)"
    "length (line_buffer (blk_buffer c3)) = length (line_buffer (blk_buffer c))"
    using ready c3(1) by (simp_all add: y_tx_ready_def same_setup_def)
  have tx: "tx_ready c3"
    using ready c3(2,3) y by (simp add: tx_ready_def tx_line_need_def y_mode y_tx_ready_def on_wire_def)
  have "chs = chunks (unat (1024 :: u32)) (ram_unread (ramfile c3))" using chs(1) c3(3) by simp
  moreover have "lxmodem_decode_preambule c3 char_C" using y(1) by (simp add: lxmodem_decode_preambule_def)
  ultimately obtain c4 where em: "lxmodem_emit c3 = Some (?sum, c4)"
    and c4: "same_setup c3 c4" "on_wire c4" "incoming (world c4) = char_C # ACK # rest"
      "sent (world c4) = sent (world c3) @ tx_stream True (crc16 c3) 1 chs"
    using emit_wire [OF c3(2) tx y_mode [OF y(1)] _ c3(4)] by auto
  obtain w5 where w5: "lmodem_wait_reception_of c4 char_C = Some (True, c4\<lparr>world := w5\<rparr>)"
    "incoming w5 = ACK # rest" "sent w5 = sent (world c4)" "on_wire (c4\<lparr>world := w5\<rparr>)"
    using wait_of_wire [OF c4(2,3)] by blast
  let ?c5 = "c4\<lparr>world := w5\<rparr>"
  have p5: "putchar_cb ?c5 = Some wire_putchar" using c4(2) by (simp add: on_wire_def)
  have "133 \<le> unat (line_max_size (blk_buffer ?c5))"
    "unat (line_max_size (blk_buffer ?c5)) \<le> length (line_buffer (blk_buffer ?c5))"
    using ready y c4(1) by (simp_all add: y_tx_ready_def same_setup_def)
  from end_of_bach_returns [OF p5 this] obtain buf where
    bach: "lymodem_send_end_of_bach ?c5 = Some (?c5\<lparr>world := wire_putchar w5 (end_frame (crc16 c4)),
      blk_buffer := (blk_buffer c4)\<lparr>line_buffer := buf, line_current_size := 133\<rparr>\<rparr>)" by auto
  let ?c6 = "?c5\<lparr>world := wire_putchar w5 (end_frame (crc16 c4)),
      blk_buffer := (blk_buffer c4)\<lparr>line_buffer := buf, line_current_size := 133\<rparr>\<rparr>"
  have "on_wire ?c6" "incoming (world ?c6) = ACK # rest" using w5 by (simp_all add: on_wire_def)
  from wait_ack_wire [OF this, of 0 x True] obtain w7 where
    w7: "lymodem_wait_ack ?c6 x True 0 = Some (True, ACK, ?c6\<lparr>world := w7\<rparr>)" "incoming w7 = rest"
    "sent w7 = sent (world ?c6)" by auto
  have "crc16 c4 = crc16 c" using c4(1) y(2) by (simp add: same_setup_def)
  moreover have pos: "0 < ?sum"
  proof -
    obtain ch chs' where "chs = ch # chs'" using chs(2) by (cases chs) auto
    then have "0 < sum_list (map block_size chs)" by (simp add: block_size_def)
    with small show ?thesis by (simp add: word_less_nat_alt unat_u32_of_nat)
  qed
  moreover have "lymodem_emit c = Some (?sum, ?c6\<lparr>world := w7\<rparr>)"
    unfolding lymodem_emit_def Let_def
    by (simp only: b0 bind.bind_lunit prod.case if_True em simp_thms pos w5(1) bach w7(1))
  ultimately show ?thesis using c3(5) c4(4) w5(3) w7 y(2)
    by (intro exI [of _ "?c6\<lparr>world := w7\<rparr>"]) (simp del: replicate.simps)
qed

lemma y_emit_wire:
  assumes wire: "on_wire c" and ready: "y_tx_ready c name"
    and chs: "chs = chunks 1024 (ram_unread (ramfile c))" "chs \<noteq> []"
    and small: "sum_list (map block_size chs) < 2 ^ 31"
    and inc: "incoming (world c) = y_answers (length chs) @ rest"
  shows "\<exists>c'. lymodem_emit c = Some (word_of_nat (sum_list (map block_size chs)), c') \<and>
    incoming (world c') = rest \<and>
    sent (world c') = sent (world c) @ y_stream (crc16 c) (file_data c) name chs"
  using y_emit_naks [OF wire ready chs small, of 0 rest] inc by (simp add: y_answers_def y_stream_def)

section \<open>The receiver over the wire\<close>

text \<open>Block 0: its header byte, the frame, the check and the reply.\<close>

lemma receive_block0_wire:
  assumes wire: "on_wire c" and y: "protocol c = YMODEM" and line: "1028 \<le> length (line_buffer (blk_buffer c))"
    and data: "length data = 128 \<or> length data = 1024"
    and inc: "incoming (world c) = block0_frame (crc16 c) data @ rest"
  shows "\<exists>c'. lymodem_wait_block0 c 0 = Some (LXMODEM_RECV_OK, c') \<and> same_setup c c' \<and> on_wire c' \<and>
    ramfile c' = ramfile c \<and> line_buffer (blk_buffer c') =
      [0, NOT 0] @ data @ block_trailer True (crc16 c) data @ drop (length data + 4) (line_buffer (blk_buffer c)) \<and>
    incoming (world c') = rest \<and> sent (world c') = sent (world c) @ [ACK]"
proof -
  let ?f = "block_frame True (crc16 c) 0 data" and ?h = "if length data = 128 then SOH else STX"
  let ?k = "word_of_nat (length data) :: u32"
  have k: "unat ?k = length data" "block_with_crc c ?k" "length ?f = length data + 4"
    using data y by (auto simp: block_with_crc_def length_block_frame)
  have cb: "getchar_cb c = Some wire_getchar" "wire_wf (world c)" using wire by (simp_all add: on_wire_def)
  have "incoming (world c) = ?h # (?f @ rest)" using inc by (simp add: block0_frame_def)
  from wire_getchar_byte [OF cb this] obtain w1 where
    got: "lmodem_getchar_byte c = Some (Some ?h, c\<lparr>world := w1\<rparr>)"
    and w1: "incoming w1 = ?f @ rest" "sent w1 = sent (world c)" "wire_wf w1" by blast
  let ?c1 = "c\<lparr>world := w1\<rparr>"
  have cb1: "getchar_cb ?c1 = Some wire_getchar" "wire_wf (world ?c1)" "incoming (world ?c1) = ?f @ rest"
    using cb w1 by simp_all
  have n: "unat (2 + ?k + 2) = length ?f" using data k(3) by (auto simp: unat_word_ariths)
  have fits: "length ?f \<le> length (line_buffer (blk_buffer ?c1))" using line data k(3) by auto
  from wire_getchar_block [OF cb1 n fits] obtain w2 where
    blk: "lmodem_getchar_block ?c1 (2 + ?k + 2) = Some (True, ?c1\<lparr>world := w2, blk_buffer := (blk_buffer ?c1)
      \<lparr>line_buffer := ?f @ drop (length ?f) (line_buffer (blk_buffer ?c1))\<rparr>\<rparr>)"
    and w2: "incoming w2 = rest" "sent w2 = sent (world ?c1)" "wire_wf w2" by blast
  let ?tl = "block_trailer True (crc16 c) data @ drop (length ?f) (line_buffer (blk_buffer c))"
  let ?c2 = "?c1\<lparr>world := w2, blk_buffer := (blk_buffer ?c1)
      \<lparr>line_buffer := ?f @ drop (length ?f) (line_buffer (blk_buffer ?c1))\<rparr>\<rparr>"
  have buf: "line_buffer (blk_buffer ?c2) = [0, NOT 0] @ data @ ?tl" by (simp add: block_frame_def)
  have size: "frame_size ?c2 ?k = length ?f" "block_with_crc ?c2 ?k"
    using k y by (simp_all add: frame_size_def block_with_crc_def)
  have "frame_size ?c2 ?k \<le> length (line_buffer (blk_buffer ?c2))" using fits size by simp
  from check_block_OK_iff [OF this, of 0] size buf k(1)
  have chk: "lxmodem_check_block_no_and_crc ?c2 0 ?k = Some LXMODEM_RECV_OK"
    by (simp add: block_frame_def)
  have p: "putchar_cb ?c2 = Some wire_putchar" using wire by (simp add: on_wire_def)
  let ?c3 = "?c2\<lparr>world := wire_putchar w2 [ACK]\<rparr>"
  have rep: "lxmodem_build_and_send_reply ?c2 LXMODEM_RECV_OK = Some ?c3"
    using reply_returns [OF p, of LXMODEM_RECV_OK] by simp
  have "lymodem_receive_block0 ?c1 ?k = Some (LXMODEM_RECV_OK, ?c3)"
    unfolding lymodem_receive_block0_def
    by (subst lymodem_receive_block0_loop.simps)
      (simp only: blk bind.bind_lunit prod.case if_True chk rep simp_thms)
  moreover have "?k = 128 \<longleftrightarrow> length data = 128" "length data \<noteq> 128 \<Longrightarrow> ?k = 1024" using data by auto
  ultimately have "lymodem_wait_block0 c 0 = Some (LXMODEM_RECV_OK, ?c3)"
    using got by (cases "length data = 128") (simp_all add: lymodem_wait_block0.simps [of c])
  moreover have "same_setup c ?c3" using fits by (simp add: same_setup_def)
  moreover have "on_wire ?c3" using wire w2(3) by (simp add: on_wire_def)
  ultimately show ?thesis unfolding k(3) [symmetric] using w1 w2 buf
    by (intro exI [of _ ?c3]) simp
qed

lemma next_file_wire:
  assumes wire: "on_wire c" and y: "protocol c = YMODEM" and line: "132 \<le> length (line_buffer (blk_buffer c))"
    and inc: "incoming (world c) = end_frame ctx @ rest"
  shows "\<exists>c'. lymodem_block_next_file c = Some c' \<and> same_setup c c' \<and> ramfile c' = ramfile c \<and>
    incoming (world c') = rest \<and> sent (world c') = sent (world c) @ [char_C, ACK]"
proof -
  let ?f = "block_frame True ctx 0 (replicate 128 0)"
  have p: "putchar_cb c = Some wire_putchar" using wire by (simp add: on_wire_def)
  let ?c0 = "c\<lparr>world := wire_putchar (world c) [char_C]\<rparr>"
  have pre: "lxmodem_build_and_send_preambule c = Some ?c0"
    using preambule_returns [OF p] y by (simp add: lxmodem_preambule_char_def)
  have cb: "getchar_cb ?c0 = Some wire_getchar" "wire_wf (world ?c0)"
    "incoming (world ?c0) = SOH # ?f @ rest"
    using wire inc by (simp_all add: on_wire_def end_frame_def block0_frame_def)
  from wire_getchar_byte [OF cb] obtain w1 where
    got: "lmodem_getchar_byte ?c0 = Some (Some SOH, ?c0\<lparr>world := w1\<rparr>)"
    and w1: "incoming w1 = ?f @ rest" "sent w1 = sent (world ?c0)" "wire_wf w1" by blast
  let ?c1 = "?c0\<lparr>world := w1\<rparr>"
  have cb1: "getchar_cb ?c1 = Some wire_getchar" "wire_wf (world ?c1)" "incoming (world ?c1) = ?f @ rest"
    using cb w1 by simp_all
  have n: "unat (128 + 2 + 2 :: u32) = length ?f" "length ?f \<le> length (line_buffer (blk_buffer ?c1))"
    using line by (simp_all add: length_block_frame)
  from wire_getchar_block [OF cb1 n] obtain w2 where
    blk: "lmodem_getchar_block ?c1 (128 + 2 + 2) = Some (True, ?c1\<lparr>world := w2, blk_buffer := (blk_buffer ?c1)
      \<lparr>line_buffer := ?f @ drop (length ?f) (line_buffer (blk_buffer ?c1))\<rparr>\<rparr>)"
    and w2: "incoming w2 = rest" "sent w2 = sent (world ?c1)" "wire_wf w2" by blast
  let ?c2 = "?c1\<lparr>world := w2, blk_buffer := (blk_buffer ?c1)
      \<lparr>line_buffer := ?f @ drop (length ?f) (line_buffer (blk_buffer ?c1))\<rparr>\<rparr>"
  have rd: "mem_read (line_buffer (blk_buffer ?c2)) 2 = Some 0"
    by (simp add: block_frame_def mem_read_def numeral_2_eq_2 nth_append)
  have p2: "putchar_cb ?c2 = Some wire_putchar" using p by simp
  let ?c3 = "?c2\<lparr>world := wire_putchar w2 [ACK]\<rparr>"
  have rep: "lxmodem_build_and_send_reply ?c2 LXMODEM_RECV_OK = Some ?c3"
    using reply_returns [OF p2, of LXMODEM_RECV_OK] by simp
  have "lymodem_block_next_file_loop ?c0 0 = Some ?c3"
    by (subst lymodem_block_next_file_loop.simps)
      (simp only: got blk rd rep bind.bind_lunit prod.case option.case if_True simp_thms, simp)
  then have "lymodem_block_next_file c = Some ?c3" using pre by (simp add: lymodem_block_next_file_def)
  moreover have "same_setup c ?c3" using n(2) by (simp add: same_setup_def)
  ultimately show ?thesis using w1 w2 by (intro exI [of _ ?c3]) simp
qed

lemma block_frame_table:
  "crctab ctx = crctab ctx' \<Longrightarrow> block0_frame ctx data = block0_frame ctx' data"
  using block_trailer_table [of ctx ctx'] by (simp add: block0_frame_def block_frame_def)

lemma cut_file:
  assumes "ram_wf b" and "ram_contents b = contents @ padding" and "length contents < 2 ^ 31"
  shows "ram_contents (snd (lmodem_buffer_set_write_offset b (word_of_nat (length contents)))) = contents"
proof -
  have n: "unat (word_of_nat (length contents) :: u32) = length contents"
    using assms(3) by (intro unat_u32_of_nat) simp
  have "length (ram_contents b) = unat (ram_write_offset b)"
    using assms(1) by (simp add: ram_defs)
  then have "length contents \<le> unat (ram_write_offset b)" using assms(2) by simp
  then have le: "word_of_nat (length contents) \<le> ram_max_size b"
    using assms(1) n by (simp add: ram_wf_def word_le_nat_alt)
  have "take (length contents) (ram_buffer b) = take (length contents) (ram_contents b)"
    using \<open>length contents \<le> unat (ram_write_offset b)\<close> by (simp add: ram_contents_def min_absorb1)
  also have "\<dots> = contents" using assms(2) by simp
  finally show ?thesis using le n
    by (simp add: lmodem_buffer_set_write_offset_def) (simp add: ram_contents_def)
qed

text \<open>The receiver: an empty file, a line buffer for 1K blocks, and a buffer for the name.\<close>

definition y_rx_ready :: "'w modem_context \<Rightarrow> u8 list \<Rightarrow> bool" where
  "y_rx_ready c name \<longleftrightarrow>
     protocol c = YMODEM \<and> crc_ok c \<and> ram_wf (ramfile c) \<and> ram_contents (ramfile c) = [] \<and>
     1028 \<le> length (line_buffer (blk_buffer c)) \<and> 1024 \<le> unat (line_max_size (blk_buffer c)) \<and>
     (\<exists>fbuf. filename (file_data c) = Some fbuf \<and> length name < unat (filename_size (file_data c)) \<and>
       unat (filename_size (file_data c)) \<le> length fbuf)"

lemma y_receive_sized:
  assumes wire: "on_wire c" and ready: "y_rx_ready c name" and name: "is_text name" "name \<noteq> []"
    and fd: "length (block0_text fd name) \<le> 1024"
    and set: "\<forall>ch \<in> set chs. length ch \<le> 1024" and chs: "chs \<noteq> []"
    and room: "sum_list (map block_size chs) < ram_room (ramfile c)"
    and ctx: "crc16_ready LXMODEM_CRC16_CCITT_POLYNOME ctx"
    and inc: "incoming (world c) = y_stream ctx fd name chs @ rest"
  shows "\<exists>c' rf. lymodem_receive c = Some (word_of_nat (sum_list (map block_size chs)), c') \<and>
    ramfile c' = snd (lmodem_buffer_set_write_offset rf (file_size fd)) \<and> ram_wf rf \<and>
    ram_contents rf = concat (map pad_block chs) \<and> ram_max_size rf = ram_max_size (ramfile c) \<and> received_meta_data fd name (file_data c') \<and>
    incoming (world c') = rest \<and> sent (world c') = sent (world c) @ y_answers (length chs)"
proof -
  let ?sum = "word_of_nat (sum_list (map block_size chs)) :: u32"
  have y: "protocol c = YMODEM" and crc: "crc_ok c" and wf: "ram_wf (ramfile c)"
    and line: "1028 \<le> length (line_buffer (blk_buffer c))" "1024 \<le> unat (line_max_size (blk_buffer c))"
    using ready by (simp_all add: y_rx_ready_def)
  have tab: "crctab ctx = crctab (crc16 c)"
    using ctx crc by (simp add: crc_ok_def crc16_ready_def) (simp add: crc16_init_def)
  let ?b0 = "block0_frame (crc16 c) (block0_data fd name)"
  have p: "putchar_cb c = Some wire_putchar" using wire by (simp add: on_wire_def)
  let ?c1 = "c\<lparr>world := wire_putchar (world c) [char_C]\<rparr>"
  have pre: "lxmodem_build_and_send_preambule c = Some ?c1"
    using preambule_returns [OF p] y by (simp add: lxmodem_preambule_char_def)
  have c1: "on_wire ?c1" "protocol ?c1 = YMODEM" "1028 \<le> length (line_buffer (blk_buffer ?c1))"
    "incoming (world ?c1) = block0_frame (crc16 ?c1) (block0_data fd name) @ tx_stream True ctx 1 chs @ end_frame ctx @ rest"
    using wire y line inc block_frame_table [OF tab] by (simp_all add: on_wire_def y_stream_def)
  have dlen: "length (block0_data fd name) = 128 \<or> length (block0_data fd name) = 1024"
    using fd by (simp add: block0_data_def block0_size_def Let_def)
  from receive_block0_wire [OF c1(1-3) dlen c1(4)] obtain c2 where
    b0: "lymodem_wait_block0 ?c1 0 = Some (LXMODEM_RECV_OK, c2)"
    and c2: "same_setup ?c1 c2" "on_wire c2" "ramfile c2 = ramfile c"
      "line_buffer (blk_buffer c2) = [0, NOT 0] @ block0_data fd name @
        (block_trailer True (crc16 c) (block0_data fd name) @
          drop (length (block0_data fd name) + 4) (line_buffer (blk_buffer c)))"
      "incoming (world c2) = tx_stream True ctx 1 chs @ end_frame ctx @ rest"
      "sent (world c2) = sent (world c) @ [char_C, ACK]" by auto
  have same2: "file_data c2 = file_data c" "line_max_size (blk_buffer c2) = line_max_size (blk_buffer c)"
    "protocol c2 = YMODEM" "crc16 c2 = crc16 c" "length (line_buffer (blk_buffer c2)) = length (line_buffer (blk_buffer c))"
    using c2(1) y by (simp_all add: same_setup_def)
  obtain fbuf where fb: "filename (file_data c2) = Some fbuf" "length name < unat (filename_size (file_data c2))"
    "unat (filename_size (file_data c2)) \<le> length fbuf"
    using ready same2(1) by (auto simp: y_rx_ready_def)
  have M: "length (meta_data_text fd 4) + 1 \<le> unat (line_max_size (blk_buffer c2))"
    using fd line(2) same2(2) by (simp add: block0_text_def)
  from decode_sent_block0 [OF name c2(4) fb M] obtain buf fd' where
    dec: "lymodem_decode_block0 c2 = Some (True, c2\<lparr>blk_buffer := (blk_buffer c2)\<lparr>line_buffer := buf\<rparr>, file_data := fd'\<rparr>)"
    and buf: "length buf = length (line_buffer (blk_buffer c2))" and meta: "received_meta_data fd name fd'" by blast
  let ?c3 = "c2\<lparr>blk_buffer := (blk_buffer c2)\<lparr>line_buffer := buf\<rparr>, file_data := fd'\<rparr>"
  have c3: "on_wire ?c3" "rx_ready ?c3" "incoming (world ?c3) = tx_stream True ctx 1 chs @ end_frame ctx @ rest"
    "sum_list (map block_size chs) < ram_room (ramfile ?c3)"
    using c2(2,3,5) buf line same2 wf room by (simp_all add: on_wire_def rx_ready_def rx_line_need_def)
  have acc: "rx_accepts ?c3 True ctx 1024"
    using block_trailer_table [OF tab] same2 by (simp add: rx_accepts_def)
  from receive_wire [OF c3(1,2) acc set c3(4,3)] obtain c4 where
    rcv: "lxmodem_receive ?c3 = Some (?sum, c4)" and c4: "same_setup ?c3 c4" "on_wire c4"
      "ram_contents (ramfile c4) = concat (map pad_block chs)" "incoming (world c4) = end_frame ctx @ rest"
      "sent (world c4) = sent (world c) @ [char_C, ACK] @ char_C # replicate (length chs + 1) ACK"
    using c2(3,6) ready same2(3) by (auto simp: y_rx_ready_def lxmodem_preambule_char_def)
  have wf4: "ram_wf (ramfile c4)"
    using tty.receive_returns [of ?c3 wire_read] c3(1,2) rcv by (auto simp: on_wire_def)
  have "protocol c4 = YMODEM" "132 \<le> length (line_buffer (blk_buffer c4))" "file_data c4 = fd'"
    using c4(1) same2 buf line by (simp_all add: same_setup_def)
  with next_file_wire [OF c4(2) _ _ c4(4)] obtain c5 where
    nxt: "lymodem_block_next_file c4 = Some c5" and c5: "ramfile c5 = ramfile c4" "file_data c5 = fd'"
      "incoming (world c5) = rest" "sent (world c5) = sent (world c4) @ [char_C, ACK]"
    by (auto simp: same_setup_def)
  have flag: "valid (file_data c5) AND LMODEM_METADATA_FILESIZE_VALID = LMODEM_METADATA_FILESIZE_VALID"
    "file_size (file_data c5) = file_size fd"
    using meta c5(2) by (simp_all add: received_meta_data_def LMODEM_METADATA_FILESIZE_VALID_def)
  have pos: "0 < ?sum"
  proof -
    obtain ch chs' where "chs = ch # chs'" using chs by (cases chs) auto
    then have "0 < sum_list (map block_size chs)" by (simp add: block_size_def)
    with room ram_room_less [OF wf] show ?thesis by (simp add: word_less_nat_alt unat_u32_of_nat)
  qed
  let ?c6 = "c5\<lparr>ramfile := snd (lmodem_buffer_set_write_offset (ramfile c5) (file_size (file_data c5)))\<rparr>"
  have code: "lymodem_receive c = Some (?sum, ?c6)"
    unfolding lymodem_receive_def
    by (simp only: pre b0 dec rcv nxt bind.bind_lunit prod.case if_True simp_thms flag(1) pos)
  have "ram_max_size (ramfile c4) = ram_max_size (ramfile c)"
    using receive_same [OF rcv] c2(3) by (simp add: same_file_def)
  with code meta wf4 c4 c5 flag(2) show ?thesis
    by (intro exI [of _ ?c6] exI [of _ "ramfile c4"]) (simp add: y_answers_def)
qed

text \<open>With the size of the contents announced, the padding is cut off.\<close>

lemma y_receive_wire:
  assumes wire: "on_wire c" and ready: "y_rx_ready c name" and name: "is_text name" "name \<noteq> []"
    and fd: "file_size fd = word_of_nat (length contents)" "length (block0_text fd name) \<le> 1024"
    and chs: "chs = chunks 1024 contents" "chs \<noteq> []"
    and room: "sum_list (map block_size chs) < ram_room (ramfile c)"
    and ctx: "crc16_ready LXMODEM_CRC16_CCITT_POLYNOME ctx"
    and inc: "incoming (world c) = y_stream ctx fd name chs @ rest"
  shows "\<exists>c'. lymodem_receive c = Some (word_of_nat (sum_list (map block_size chs)), c') \<and>
    ram_contents (ramfile c') = contents \<and> received_meta_data fd name (file_data c') \<and>
    incoming (world c') = rest \<and> sent (world c') = sent (world c) @ y_answers (length chs)"
proof -
  have set: "\<forall>ch \<in> set chs. length ch \<le> 1024" using chs chunks_set by blast
  obtain c' rf where c': "lymodem_receive c = Some (word_of_nat (sum_list (map block_size chs)), c')"
    "ramfile c' = snd (lmodem_buffer_set_write_offset rf (file_size fd))"
    "received_meta_data fd name (file_data c')" "incoming (world c') = rest"
    "sent (world c') = sent (world c) @ y_answers (length chs)"
    and rf: "ram_wf rf" "ram_contents rf = concat (map pad_block chs)"
    using y_receive_sized [OF wire ready name fd(2) set chs(2) room ctx inc] by blast
  obtain k where pad: "concat (map pad_block chs) = contents @ replicate k SUB"
    using concat_pad_chunks [of 1024 contents] chs by auto
  have "length contents \<le> length (ram_contents rf)" using rf(2) pad by simp
  also have "\<dots> < 2 ^ 31" using rf(1) by (auto simp: ram_defs)
  finally have "ram_contents (ramfile c') = contents"
    using cut_file [OF rf(1)] rf(2) pad c'(2) fd(1) by simp
  with c' show ?thesis by blast
qed

section \<open>Properties\<close>

text \<open>
  C2: A whole YMODEM transfer over ports that lose nothing and deliver the bytes in pieces of any
  size. The sender has a file with name and metadata, the receiver an empty file with room for the
  padded blocks. The bytes each side waits for are the bytes the other sends; both return the same
  count, every byte is used, and the receiver ends with exactly the sender's bytes, cut to the
  announced size, and with its name, size, date, serial number and permission (without its top bit).
\<close>

theorem ymodem_transfer:
  assumes "on_wire s" and "y_tx_ready (s\<lparr>protocol := YMODEM\<rparr>) name" and "name \<noteq> []" and "crc_ok s"
    and "contents = ram_unread (ramfile s)" and "contents \<noteq> []"
    and "file_size (file_data s) = word_of_nat (length contents)"
    and "on_wire r" and "y_rx_ready (r\<lparr>protocol := YMODEM\<rparr>) name"
    and "chs = chunks 1024 contents" and "sum_list (map block_size chs) < ram_room (ramfile r)"
    and "sent (world s) = []" and "incoming (world s) = y_answers (length chs)"
    and "sent (world r) = []" and "incoming (world r) = y_stream (crc16 s) (file_data s) name chs"
  shows "\<exists>n s' r'. lmodem_emit s YMODEM = Some (n, s') \<and> lmodem_receive r YMODEM = Some (n, r') \<and>
    ram_contents (ramfile r') = contents \<and> received_meta_data (file_data s) name (file_data r') \<and>
    sent (world s') = incoming (world r) \<and> sent (world r') = incoming (world s) \<and>
    incoming (world s') = [] \<and> incoming (world r') = []"
proof -
  let ?s = "s\<lparr>protocol := YMODEM\<rparr>" and ?r = "r\<lparr>protocol := YMODEM\<rparr>"
  have wire: "on_wire ?s" "on_wire ?r" using assms(1,8) by (simp_all add: on_wire_def)
  have name: "is_text name" and fits: "length (block0_text (file_data s) name) \<le> 1024"
    using assms(2) by (simp_all add: y_tx_ready_def)
  have ne: "chs \<noteq> []" using assms(6,10) by (simp add: chunks_next)
  have "ram_wf (ramfile r)" using assms(9) by (simp add: y_rx_ready_def)
  from ram_room_less [OF this] assms(11) have small: "sum_list (map block_size chs) < 2 ^ 31" by simp
  have ctx: "crc16_ready LXMODEM_CRC16_CCITT_POLYNOME (crc16 s)" using assms(4) by (simp add: crc_ok_def)
  obtain s' where s': "lymodem_emit ?s = Some (word_of_nat (sum_list (map block_size chs)), s')"
    "incoming (world s') = []" "sent (world s') = y_stream (crc16 s) (file_data s) name chs"
    using y_emit_wire [OF wire(1) assms(2) _ ne small, of "[]"] assms(5,10,12,13) by auto
  obtain r' where "lymodem_receive ?r = Some (word_of_nat (sum_list (map block_size chs)), r')"
    "ram_contents (ramfile r') = contents" "received_meta_data (file_data s) name (file_data r')"
    "incoming (world r') = []" "sent (world r') = y_answers (length chs)"
    using y_receive_wire [OF wire(2) assms(9) name assms(3,7) fits assms(10) ne _ ctx, of "[]"] assms(11,14,15)
    by auto
  with s' assms(13,15) show ?thesis
    by (simp add: lmodem_emit_def lmodem_receive_def)
qed

text \<open>
  C12: The metadata of block 0 survive the wire. A receiver whose line buffer holds the data of
  the block 0 that a sender builds decodes the sender's name, size, date and serial number,
  also a size of 2 GiB and more, which is printed as a negative number, and the permission without
  its top bit, which the sender sets as a mark.
\<close>

theorem block0_metadata_round_trip:
  assumes "is_text name" and "name \<noteq> []"
    and "line_buffer (blk_buffer c) = [0, NOT 0] @ block0_data fd name @ rest"
    and "filename (file_data c) = Some fbuf" and "length name < unat (filename_size (file_data c))"
    and "unat (filename_size (file_data c)) \<le> length fbuf"
    and "length (meta_data_text fd 4) + 1 \<le> unat (line_max_size (blk_buffer c))"
  shows "\<exists>c' more. lymodem_decode_block0 c = Some (True, c') \<and>
    filename (file_data c') = Some (name @ 0 # more) \<and> file_size (file_data c') = file_size fd \<and>
    modif_date (file_data c') = modif_date fd \<and>
    permission (file_data c') = permission fd AND NOT 0x8000 \<and>
    serial_number (file_data c') = serial_number fd \<and> filename_valid c'"
  using decode_sent_block0 [OF assms(1-6,7)]
  by (auto simp: received_meta_data_def filename_valid_def LMODEM_METADATA_FILENAME_VALID_def)

text \<open>The contexts of the witnesses.\<close>

definition demo_meta :: lmodem_file_characteristics where
  "demo_meta = \<lparr>valid = 0x1F, filename = Some [0x61, 0x62, 0, 0], filename_size = 4, file_size = 2, modif_date = 7,
     permission = 0x81A4, serial_number = 3\<rparr>"

definition y_demo :: "u8 list list \<Rightarrow> lmodem_buffer \<Rightarrow> wire modem_context" where
  "y_demo pieces rf = (lmodem_init (unset_context \<lparr>pending = [], sent = []\<rparr>) Lxmodem_128_with_chksum)\<lparr>blk_buffer :=
      \<lparr>line_buffer = replicate 1030 0, line_current_size = 0, line_max_size = 1029\<rparr>, ramfile := rf,
    file_data := demo_meta, getchar_cb := Some wire_getchar, putchar_cb := Some wire_putchar,
    world := \<lparr>pending = pieces, sent = []\<rparr>\<rparr>"

lemma demo_text: "length (meta_data_text demo_meta 4) = 12"
  by (simp add: demo_meta_def meta_data_text_def format_d_def format_o_def digits.simps)

lemma y_demo_fields:
  "line_buffer (blk_buffer (y_demo pieces rf)) = replicate 1030 0"
  "line_max_size (blk_buffer (y_demo pieces rf)) = 1029" "ramfile (y_demo pieces rf) = rf"
  "file_data (y_demo pieces rf) = demo_meta" "incoming (world (y_demo pieces rf)) = concat pieces"
  "sent (world (y_demo pieces rf)) = []" "crc_ok (y_demo pieces rf)"
  "crc16 (y_demo pieces rf) = crc16 (lmodem_init (unset_context \<lparr>pending = [], sent = []\<rparr>) Lxmodem_128_with_chksum)"
  "on_wire (y_demo pieces rf) \<longleftrightarrow> [] \<notin> set pieces"
  using lmodem_init_crc_ok [of "unset_context \<lparr>pending = [], sent = []\<rparr>" Lxmodem_128_with_chksum]
  by (simp_all add: y_demo_def incoming_def crc_ok_def on_wire_def wire_wf_def)

lemma y_demo_sender: "y_tx_ready ((y_demo pieces demo_file)\<lparr>protocol := YMODEM\<rparr>) [0x61, 0x62]"
proof -
  have "ram_wf demo_file" by (simp add: ram_defs)
  then show ?thesis using demo_text
    by (simp add: y_tx_ready_def y_demo_fields is_text_def filename_valid_def block0_text_def)
      (simp add: demo_meta_def all_meta_data_def nb_meta_data_def
        LMODEM_METADATA_FILENAME_VALID_def LMODEM_METADATA_FILESIZE_VALID_def LMODEM_METADATA_MODIFDATE_VALID_def
        LMODEM_METADATA_PERMISSION_VALID_def LMODEM_METADATA_SERIAL_VALID_def)
qed

lemma y_demo_receiver:
  "y_rx_ready ((y_demo pieces (lmodem_buffer_init demo_file (replicate 4096 0) 4096))\<lparr>protocol := YMODEM\<rparr>) [0x61, 0x62]"
proof -
  let ?f = "lmodem_buffer_init demo_file (replicate 4096 0) 4096"
  have "crc_ok ((y_demo pieces ?f)\<lparr>protocol := YMODEM\<rparr>)" using y_demo_fields(7) by (simp add: crc_ok_def)
  moreover have "filename demo_meta = Some [0x61, 0x62, 0, 0]" "unat (filename_size demo_meta) = 4"
    by (simp_all add: demo_meta_def)
  moreover have "ram_wf ?f" by (rule ram_wf_init) simp_all
  ultimately show ?thesis by (simp add: y_rx_ready_def y_demo_fields)
qed

theorem block0_metadata_round_trip_witness:
  "\<exists>c' more. lymodem_decode_block0 ((y_demo [] demo_file)\<lparr>blk_buffer :=
      \<lparr>line_buffer = [0, NOT 0] @ block0_data demo_meta [0x61, 0x62] @ [], line_current_size = 0,
        line_max_size = 1029\<rparr>\<rparr>) = Some (True, c') \<and>
    filename (file_data c') = Some ([0x61, 0x62] @ 0 # more) \<and> modif_date (file_data c') = 7"
  using block0_metadata_round_trip [of "[0x61, 0x62]" "(y_demo [] demo_file)\<lparr>blk_buffer :=
      \<lparr>line_buffer = [0, NOT 0] @ block0_data demo_meta [0x61, 0x62] @ [], line_current_size = 0,
        line_max_size = 1029\<rparr>\<rparr>" demo_meta "[]" "[0x61, 0x62, 0, 0]"]
  by (auto simp: y_demo_fields is_text_def demo_text) (auto simp: demo_meta_def)

theorem ymodem_transfer_witness:
  "\<exists>n s' r'.
    lmodem_emit (y_demo [[char_C, ACK], [char_C, ACK, ACK, char_C], [ACK]] demo_file) YMODEM = Some (n, s') \<and>
    lmodem_receive (y_demo [y_stream (crc16 (lmodem_init (unset_context \<lparr>pending = [], sent = []\<rparr>) Lxmodem_128_with_chksum)) demo_meta [0x61, 0x62] [[8, 9]]]
      (lmodem_buffer_init demo_file (replicate 4096 0) 4096)) YMODEM = Some (n, r') \<and>
    ram_contents (ramfile r') = [8, 9]"
proof -
  let ?s = "y_demo [[char_C, ACK], [char_C, ACK, ACK, char_C], [ACK]] demo_file"
  let ?str = "y_stream (crc16 (lmodem_init (unset_context \<lparr>pending = [], sent = []\<rparr>) Lxmodem_128_with_chksum)) demo_meta [0x61, 0x62] [[8, 9]]"
  let ?r = "y_demo [?str] (lmodem_buffer_init demo_file (replicate 4096 0) 4096)"
  have str: "?str \<noteq> []" by (simp add: y_stream_def block0_frame_def)
  have ramf: "ram_wf demo_file" "ram_unread demo_file = [8, 9]" by (simp_all add: ram_defs)
  have chs: "[[8, 9]] = chunks 1024 [8, 9 :: u8]" by (simp add: chunks_next)
  have "\<exists>n s' r'. lmodem_emit ?s YMODEM = Some (n, s') \<and> lmodem_receive ?r YMODEM = Some (n, r') \<and>
    ram_contents (ramfile r') = [8, 9] \<and> received_meta_data (file_data ?s) [0x61, 0x62] (file_data r') \<and>
    sent (world s') = incoming (world ?r) \<and> sent (world r') = incoming (world ?s) \<and>
    incoming (world s') = [] \<and> incoming (world r') = []"
    by (rule ymodem_transfer [OF _ y_demo_sender _ _ _ _ _ _ y_demo_receiver chs])
      (use str ramf in \<open>simp_all add: y_demo_fields y_answers_def block_size_def\<close>,
        simp add: demo_meta_def)
  then show ?thesis by blast
qed

end
