(* ===== verification/Ymodem_Faults.thy ===== *)
theory Ymodem_Faults
  imports Ymodem_Link
begin

text \<open>
  What YMODEM does with transfers that are not as \<open>lymodem_emit\<close> of this program makes them: a block
  0 with a name only, a name that is too long, a size that is not that of the file, a receiver that
  refuses block 0, and lines that fall silent. Each is a run of the code over a port of \<open>Wire\<close>.
\<close>

section \<open>The refusal of a block 0 and the announced size\<close>

text \<open>With a larger size announced, the file ends in bytes that were in its buffer before.\<close>

lemma grown_file:
  assumes "ram_wf b" and "length (ram_contents b) \<le> unat n" and "unat n \<le> unat (ram_max_size b)"
  shows "\<exists>stale. ram_contents (snd (lmodem_buffer_set_write_offset b n)) = ram_contents b @ stale \<and>
    length stale = unat n - length (ram_contents b)"
proof -
  let ?w = "unat (ram_write_offset b)"
  have w: "length (ram_contents b) = ?w" using assms(1) by (simp add: ram_defs)
  have "take (unat n) (ram_buffer b) = take ?w (ram_buffer b) @ take (unat n - ?w) (drop ?w (ram_buffer b))"
    using assms(2) w by (metis le_add_diff_inverse take_add)
  then have "ram_contents (snd (lmodem_buffer_set_write_offset b n)) =
      ram_contents b @ take (unat n - ?w) (drop ?w (ram_buffer b))"
    using assms(3) by (simp add: lmodem_buffer_set_write_offset_def word_le_nat_alt ram_contents_def)
  moreover have "length (take (unat n - ?w) (drop ?w (ram_buffer b))) = unat n - ?w"
    using assms(1,3) by (auto simp: ram_wf_def min_def)
  ultimately show ?thesis using w by simp
qed

text \<open>A transfer whose block 0 is good but refused: it is acknowledged, and that is all.\<close>

lemma refused_wire:
  assumes wire: "on_wire r" and line: "1028 \<le> length (line_buffer (blk_buffer r))"
    and data: "length data = 128 \<or> length data = 1024"
    and inc: "incoming (world r) = block0_frame (crc16 r) data @ rest"
    and refuses: "\<And>c. same_setup r (c\<lparr>protocol := protocol r\<rparr>) \<Longrightarrow> line_buffer (blk_buffer c) =
      [0, NOT 0] @ data @ block_trailer True (crc16 r) data @ drop (length data + 4) (line_buffer (blk_buffer r)) \<Longrightarrow>
      refuses_block0 c"
  shows "\<exists>r'. lmodem_receive r YMODEM = Some (-1, r') \<and> ram_contents (ramfile r') = [] \<and>
    sent (world r') = sent (world r) @ [char_C, ACK] \<and> incoming (world r') = rest"
proof -
  let ?r = "r\<lparr>protocol := YMODEM\<rparr>"
  have p: "putchar_cb ?r = Some wire_putchar" using wire by (simp add: on_wire_def)
  let ?r1 = "?r\<lparr>world := wire_putchar (world ?r) [char_C]\<rparr>"
  have pre: "lxmodem_build_and_send_preambule ?r = Some ?r1"
    using preambule_returns [OF p] by (simp add: lxmodem_preambule_char_def)
  have r1: "on_wire ?r1" "protocol ?r1 = YMODEM" "1028 \<le> length (line_buffer (blk_buffer ?r1))"
    "incoming (world ?r1) = block0_frame (crc16 ?r1) data @ rest"
    using wire line inc by (simp_all add: on_wire_def)
  from receive_block0_wire [OF r1(1-3) data r1(4)] obtain c where
    b0: "lymodem_wait_block0 ?r1 0 = Some (LXMODEM_RECV_OK, c)"
    and c: "same_setup ?r1 c" "ramfile c = ramfile r" "incoming (world c) = rest"
      "sent (world c) = sent (world r) @ [char_C, ACK]"
      "line_buffer (blk_buffer c) = [0, NOT 0] @ data @ block_trailer True (crc16 r) data @
        drop (length data + 4) (line_buffer (blk_buffer r))"
    by auto
  have "same_setup r (c\<lparr>protocol := protocol r\<rparr>)" using c(1) by (simp add: same_setup_def)
  from refuses [OF this c(5)] obtain buf fd where "lymodem_decode_block0 c =
      Some (False, c\<lparr>blk_buffer := (blk_buffer c)\<lparr>line_buffer := buf\<rparr>, file_data := fd\<rparr>)"
    "file_size fd = 0" "valid fd AND LMODEM_METADATA_FILESIZE_VALID = LMODEM_METADATA_FILESIZE_VALID"
    by (auto simp: refuses_block0_def)
  with pre b0 c show ?thesis
    by (simp add: lmodem_receive_def lymodem_receive_def lmodem_buffer_set_write_offset_def ram_contents_def
        word_greater_zero_iff)
qed

section \<open>Properties\<close>

text \<open>
  C37: A silent line while block 0 is awaited: \<open>lymodem_receive_block0\<close> counts only blocks that
  arrived, never a failed read, so it does not return; the timeouts of the reads do not end it.
\<close>

theorem receive_block0_never_times_out:
  assumes "on_wire c" and "pending (world c) = []" and "blksz = 128 \<or> blksz = 1024"
  shows "lymodem_receive_block0 c blksz = None"
proof -
  let ?P = "\<lambda>c k n y. \<not> (on_wire c \<and> pending (world c) = [] \<and> 0 < unat (2 + k + 2 :: u32))"
  have "?P c k n y" if "lymodem_receive_block0_loop c k n = Some y" for c k n y
    using that
  proof (rule lymodem_receive_block0_loop.raw_induct [where P = ?P, rotated])
    fix loop c k n y
    assume IH: "\<And>c k n y. loop c k n = Some y \<Longrightarrow> ?P c k n y"
      and body: "do {
        (bReceived, c) \<leftarrow> lmodem_getchar_block c (2 + k + 2);
        if bReceived then do {
          rxStatus \<leftarrow> lxmodem_check_block_no_and_crc c 0 k;
          c \<leftarrow> lxmodem_build_and_send_reply c rxStatus;
          if rxStatus = LXMODEM_RECV_OK then Some (rxStatus, c)
          else if n + 1 \<ge> 10 then do { c \<leftarrow> lxmodem_build_and_send_cancel c; Some (rxStatus, c) }
          else loop c k (n + 1)
        } else loop c k n
      } = Some y"
    show "?P c k n y"
    proof
      assume silent: "on_wire c \<and> pending (world c) = [] \<and> 0 < unat (2 + k + 2)"
      then have "wire_getchar (world c) (2 + k + 2) = Some ((False, []), world c)"
        by (intro wire_getchar_silent) simp_all
      with silent have "lmodem_getchar_block c (2 + k + 2) = Some (False, c)"
        by (simp add: lmodem_getchar_block_def lmodem_getchar_def on_wire_def mem_put_def)
      with body have "loop c k n = Some y" by simp
      from IH [OF this] silent show False by blast
    qed
  qed
  moreover have "0 < unat (2 + blksz + 2)" using assms(3) by (auto simp: unat_word_ariths)
  ultimately show ?thesis using assms(1,2)
    unfolding lymodem_receive_block0_def by (cases "lymodem_receive_block0_loop c blksz 0") blast+
qed

theorem receive_block0_never_times_out_witness:
  "lymodem_receive_block0 (y_demo [] demo_file) 128 = None"
  by (rule receive_block0_never_times_out) (simp_all add: y_demo_fields, simp add: y_demo_def)

text \<open>
  The wait for the answer to the block that ends the batch takes silence for an ACK: the
  variable still holds the ACK of block 0, so on a silent line \<open>lymodem_wait_ack\<close> reports success
  although nothing was received.
\<close>

lemma stale_ack_taken_for_answer:
  assumes "getchar_cb c = Some wire_getchar" and "pending (world c) = []"
  shows "lymodem_wait_ack c ACK ok 0 = Some (True, ACK, c)"
  using wait_char_silent [OF assms, of 0]
  by (simp add: lymodem_wait_ack.simps [of c] lmodem_wait_reception_def)

text \<open>
  C35: The announced size decides how long the file is, whatever was sent. If block 0 announces more
  than the blocks that follow, the transfer ends with success, and the received file has the
  announced size: behind the data it holds bytes that were in the file's buffer before.
\<close>

theorem announced_size_beyond_received:
  assumes "on_wire r" and "y_rx_ready (r\<lparr>protocol := YMODEM\<rparr>) name" and "is_text name" and "name \<noteq> []"
    and "length (block0_text fd name) \<le> 1024" and "\<forall>ch \<in> set chs. length ch \<le> 1024" and "chs \<noteq> []"
    and "sum_list (map block_size chs) < ram_room (ramfile r)"
    and "crc16_ready LXMODEM_CRC16_CCITT_POLYNOME ctx"
    and "incoming (world r) = y_stream ctx fd name chs @ rest"
    and "sum_list (map block_size chs) < unat (file_size fd)"
    and "unat (file_size fd) \<le> unat (ram_max_size (ramfile r))"
  shows "\<exists>n r' stale. lmodem_receive r YMODEM = Some (n, r') \<and> unat n = sum_list (map block_size chs) \<and>
    ram_contents (ramfile r') = concat (map pad_block chs) @ stale \<and>
    length stale = unat (file_size fd) - sum_list (map block_size chs)"
proof -
  let ?r = "r\<lparr>protocol := YMODEM\<rparr>" and ?sum = "sum_list (map block_size chs)"
  have "on_wire ?r" using assms(1) by (simp add: on_wire_def)
  from y_receive_sized [OF this assms(2-7) _ assms(9), of rest] assms(8,10) obtain r' rf where
    r': "lymodem_receive ?r = Some (word_of_nat ?sum, r')"
      "ramfile r' = snd (lmodem_buffer_set_write_offset rf (file_size fd))"
    and rf: "ram_wf rf" "ram_contents rf = concat (map pad_block chs)" "ram_max_size rf = ram_max_size (ramfile r)"
    by auto
  have len: "length (concat (map pad_block chs)) = ?sum"
    using assms(6) by (simp add: length_concat comp_def length_pad_block cong: map_cong)
  have "ram_wf (ramfile r)" using assms(2) by (simp add: y_rx_ready_def)
  from ram_room_less [OF this] assms(8) have "unat (word_of_nat ?sum :: u32) = ?sum"
    by (simp add: unat_u32_of_nat)
  moreover have "length (ram_contents rf) \<le> unat (file_size fd)" "unat (file_size fd) \<le> unat (ram_max_size rf)"
    using rf(2,3) len assms(11,12) by simp_all
  from grown_file [OF rf(1) this] rf(2) len r'(2) obtain stale where
    "ram_contents (ramfile r') = concat (map pad_block chs) @ stale" "length stale = unat (file_size fd) - ?sum"
    by auto
  ultimately show ?thesis using r'(1) by (auto simp: lmodem_receive_def)
qed

theorem announced_size_beyond_received_witness:
  "\<exists>n r' stale. lmodem_receive (y_demo [y_stream demo_table (demo_meta\<lparr>file_size := 200\<rparr>) [0x61, 0x62] [[8, 9]]]
      (lmodem_buffer_init demo_file (replicate 4096 0) 4096)) YMODEM = Some (n, r') \<and>
    ram_contents (ramfile r') = pad_block [8, 9] @ stale \<and> length stale = 72"
proof -
  let ?fd = "demo_meta\<lparr>file_size := 200\<rparr>"
  let ?str = "y_stream demo_table ?fd [0x61, 0x62] [[8, 9]]"
  let ?r = "y_demo [?str] (lmodem_buffer_init demo_file (replicate 4096 0) 4096)"
  have str: "?str \<noteq> []" by (simp add: y_stream_def block0_frame_def)
  have fits: "length (block0_text ?fd [0x61, 0x62]) \<le> 1024"
    by (simp add: block0_text_def demo_meta_def meta_data_text_def format_d_def format_o_def digits.simps)
  have "\<exists>n r' stale. lmodem_receive ?r YMODEM = Some (n, r') \<and> unat n = sum_list (map block_size [[8, 9 :: u8]]) \<and>
    ram_contents (ramfile r') = concat (map pad_block [[8, 9]]) @ stale \<and>
    length stale = unat (file_size ?fd) - sum_list (map block_size [[8, 9 :: u8]])"
    by (rule announced_size_beyond_received [OF _ y_demo_receiver _ _ fits _ _ _ demo_table_ready, where rest = "[]"])
      (use str in \<open>simp_all add: y_demo_fields is_text_def block_size_def lmodem_buffer_init_def ram_room_def\<close>)
  then show ?thesis by (auto simp: block_size_def)
qed

text \<open>
  C36: What a YMODEM sender makes of a refused block 0. Each NAK repeats it, byte for byte; an ACK
  after up to nine of them starts the file. But ten refusals start the file as well: the counter
  ends the wait and success is still assumed, so the whole file is sent to a receiver that never
  took its name, and \<open>lmodem_emit\<close> returns its size.
\<close>

theorem block0_refusals_do_not_stop:
  assumes "on_wire s" and "y_tx_ready (s\<lparr>protocol := YMODEM\<rparr>) name"
    and "chs = chunks 1024 (ram_unread (ramfile s))" and "chs \<noteq> []" and "sum_list (map block_size chs) < 2 ^ 31"
    and "k \<le> 10" and "incoming (world s) = char_C # replicate k NAK @ (if k = 10 then [] else [ACK]) @
      char_C # replicate (length chs + 1) ACK @ [char_C, ACK]"
  shows "\<exists>n s'. lmodem_emit s YMODEM = Some (n, s') \<and> unat n = sum_list (map block_size chs) \<and>
    sent (world s') = sent (world s) @
      concat (replicate (k + 1) (block0_frame (crc16 s) (block0_data (file_data s) name))) @
      tx_stream True (crc16 s) 1 chs @ end_frame (crc16 s)"
proof -
  let ?s = "s\<lparr>protocol := YMODEM\<rparr>"
  have "on_wire ?s" "chs = chunks 1024 (ram_unread (ramfile ?s))" using assms(1,3) by (simp_all add: on_wire_def)
  moreover have "incoming (world ?s) = char_C # replicate k NAK @ (if k < 10 then [ACK] else []) @
      char_C # replicate (length chs + 1) ACK @ [char_C, ACK] @ []"
    using assms(6,7) by (cases "k = 10") auto
  ultimately obtain s' where "lymodem_emit ?s = Some (word_of_nat (sum_list (map block_size chs)), s')"
    "sent (world s') = sent (world s) @
      concat (replicate (Suc k) (block0_frame (crc16 s) (block0_data (file_data s) name))) @
      tx_stream True (crc16 s) 1 chs @ end_frame (crc16 s)"
    using y_emit_naks [of ?s name chs k "[]"] assms(2,4-6) by auto
  moreover have "unat (word_of_nat (sum_list (map block_size chs)) :: u32) = sum_list (map block_size chs)"
    using assms(5) by (intro unat_u32_of_nat) simp
  ultimately show ?thesis by (auto simp: lmodem_emit_def)
qed

theorem block0_refusals_do_not_stop_witness:
  "\<exists>n s'. lmodem_emit (y_demo [[char_C], replicate 10 NAK, [char_C, ACK, ACK, char_C], [ACK]] demo_file) YMODEM = Some (n, s') \<and>
    unat n = 128"
proof -
  let ?s = "y_demo [[char_C], replicate 10 NAK, [char_C, ACK, ACK, char_C], [ACK]] demo_file"
  have ramf: "ram_unread demo_file = [8, 9]" by (simp add: ram_defs)
  have chs: "[[8, 9]] = chunks 1024 (ram_unread (ramfile ?s))" "[[8, 9 :: u8]] \<noteq> []"
    "sum_list (map block_size [[8, 9 :: u8]]) < 2 ^ 31" "(10 :: nat) \<le> 10"
    unfolding y_demo_fields ramf by (simp_all add: chunks_next block_size_def)
  have io: "on_wire ?s" "incoming (world ?s) = char_C # replicate 10 NAK @ (if (10 :: nat) = 10 then [] else [ACK]) @
      char_C # replicate (length [[8, 9 :: u8]] + 1) ACK @ [char_C, ACK]"
    by (simp_all add: y_demo_fields)
  from block0_refusals_do_not_stop [OF io(1) y_demo_sender chs io(2)] show ?thesis
    by (auto simp: block_size_def)
qed

text \<open>
  C33: A block 0 that names the file and says nothing more, which \<open>docs/ymodem.txt\<close> allows, is refused.
  The search for the next field runs over the zeros behind the name to the CRC of the block and
  takes it for the file's size. Unless the CRC happens to look like a number, the block is
  acknowledged, but \<open>lmodem_receive\<close> returns -1, sends nothing more, and drops what the file held:
  its result, -1 as an unsigned number, is positive, and the size of the unreadable field is 0.
\<close>

theorem name_only_block0_refused:
  assumes "on_wire r" and "1028 \<le> length (line_buffer (blk_buffer r))" and "is_text name" and "name \<noteq> []"
    and "length name < 128"
    and "length (line_buffer (blk_buffer r)) \<le> unat (line_max_size (blk_buffer r)) + length name"
    and "filename (file_data r) = Some fbuf" and "length name < unat (filename_size (file_data r))"
    and "unat (filename_size (file_data r)) \<le> length fbuf"
    and "data = name @ replicate (128 - length name) 0"
    and "incoming (world r) = SOH # block_frame True (crc16 r) 0 data @ rest"
    and "no_number (crc_hi (crc16_doCalcul (crc16 r) data LXMODEM_CRC16_INIT_VALUE LXMODEM_CRC16_XOR_FINAL))"
    and "0 \<in> set (drop 132 (line_buffer (blk_buffer r)))"
  shows "\<exists>r'. lmodem_receive r YMODEM = Some (-1, r') \<and> ram_contents (ramfile r') = [] \<and>
    sent (world r') = sent (world r) @ [char_C, ACK] \<and> incoming (world r') = rest"
proof -
  let ?crc = "crc16_doCalcul (crc16 r) data LXMODEM_CRC16_INIT_VALUE LXMODEM_CRC16_XOR_FINAL"
  have d: "length data = 128" using assms(5,10) by simp
  have inc: "incoming (world r) = block0_frame (crc16 r) data @ rest"
    using assms(11) d by (simp add: block0_frame_def)
  have tail: "0 \<in> set (crc_lo ?crc # drop 132 (line_buffer (blk_buffer r)))" using assms(13) by simp
  have z: "0 < 128 - length name" using assms(5) by simp
  have "refuses_block0 c" if "same_setup r (c\<lparr>protocol := protocol r\<rparr>)"
    "line_buffer (blk_buffer c) =
      [0, NOT 0] @ data @ block_trailer True (crc16 r) data @ drop (length data + 4) (line_buffer (blk_buffer r))" for c
    by (rule decode_name_only [OF assms(3,4) z _ assms(12) tail])
      (use that d assms(6-10) in \<open>auto simp: same_setup_def block_trailer_def\<close>)
  from refused_wire [OF assms(1,2) _ inc this] d show ?thesis by blast
qed

text \<open>The CRC of a block 0 with the name \<open>ab\<close>.\<close>

lemma crc_of_name_only: "crc_serial 0x1021 0 ([0x61, 0x62] @ replicate 126 0) = 0x8683"
  by code_simp

theorem name_only_block0_refused_witness:
  "\<exists>r'. lmodem_receive (y_demo [SOH # block_frame True demo_table 0 ([0x61, 0x62] @ replicate 126 0)] demo_file) YMODEM =
      Some (-1, r') \<and> sent (world r') = [char_C, ACK]"
proof -
  let ?data = "[0x61, 0x62] @ replicate 126 0 :: u8 list"
  let ?r = "(y_demo [SOH # block_frame True demo_table 0 ?data] demo_file) :: wire modem_context"
  have crc: "crc16 ?r = demo_table" by (simp add: y_demo_fields demo_table_def)
  have val: "crc16_doCalcul demo_table ?data 0 0 = 0x8683"
    using demo_table_ready unfolding LXMODEM_CRC16_CCITT_POLYNOME_def
    by (simp only: crc16_doCalcul_serial crc_of_name_only) simp
  have hi: "no_number (crc_hi (crc16_doCalcul (crc16 ?r) ?data LXMODEM_CRC16_INIT_VALUE LXMODEM_CRC16_XOR_FINAL))"
    unfolding crc LXMODEM_CRC16_INIT_VALUE_def LXMODEM_CRC16_XOR_FINAL_def val
    by (simp add: no_number_def crc_hi_def is_space_def is_digit_def)
  have buf: "1028 \<le> length (line_buffer (blk_buffer ?r))" "0 \<in> set (drop 132 (line_buffer (blk_buffer ?r)))"
    "length (line_buffer (blk_buffer ?r)) \<le> unat (line_max_size (blk_buffer ?r)) + length [0x61, 0x62 :: u8]"
    by (simp_all add: y_demo_fields)
  have name: "is_text [0x61, 0x62]" "[0x61, 0x62 :: u8] \<noteq> []" "length [0x61, 0x62 :: u8] < 128"
    "filename (file_data ?r) = Some [0x61, 0x62, 0, 0]" "length [0x61, 0x62 :: u8] < unat (filename_size (file_data ?r))"
    "unat (filename_size (file_data ?r)) \<le> length [0x61, 0x62, 0, 0 :: u8]"
    "?data = [0x61, 0x62] @ replicate (128 - length [0x61, 0x62 :: u8]) 0"
    by (simp_all add: y_demo_fields is_text_def demo_meta_def)
  have line: "on_wire ?r" "incoming (world ?r) = SOH # block_frame True (crc16 ?r) 0 ?data @ []"
    unfolding crc by (simp_all add: y_demo_fields)
  from name_only_block0_refused [OF line(1) buf(1) name(1-3) buf(3) name(4-7) line(2) hi buf(2)]
  show ?thesis by (auto simp: y_demo_fields(6))
qed

text \<open>
  C34: A name that does not fit is not cut short, as \<open>lmodem_metadata_set_filename\<close> does. The metadata
  are looked for behind the stored part of the name, so the part that was cut off is taken for the
  file's size. Unless it begins like a number, with a digit, a blank or a sign (\<open>no_number\<close> of the
  first byte cut off), the receiver refuses the file. With such a byte nothing is said here: a
  buffer of four bytes makes the 7 of \<open>abc7\<close> the size, and the fields that follow move by one.
\<close>

theorem long_name_refused:
  assumes "on_wire r" and "1028 \<le> length (line_buffer (blk_buffer r))" and "is_text name"
    and "length (block0_text fd name) \<le> 1024"
    and "length (line_buffer (blk_buffer r)) \<le> unat (line_max_size (blk_buffer r)) + 2"
    and "filename (file_data r) = Some fbuf" and "n = unat (filename_size (file_data r))" and "0 < n"
    and "n \<le> length name" and "n \<le> length fbuf" and "no_number (name ! (n - 1))"
    and "incoming (world r) = block0_frame (crc16 r) (block0_data fd name) @ rest"
  shows "\<exists>r'. lmodem_receive r YMODEM = Some (-1, r') \<and> ram_contents (ramfile r') = [] \<and>
    sent (world r') = sent (world r) @ [char_C, ACK] \<and> incoming (world r') = rest"
proof -
  let ?data = "block0_data fd name"
  have d: "length ?data = 128 \<or> length ?data = 1024"
    using assms(4) by (simp add: block0_data_def block0_size_def Let_def)
  have name: "name = take (n - 1) name @ name ! (n - 1) # drop n name"
    using assms(8,9) id_take_nth_drop [of "n - 1" name] by simp
  obtain more where data: "?data = name @ 0 # more" by (simp add: block0_data_def block0_text_def Let_def)
  have "refuses_block0 c" if "same_setup r (c\<lparr>protocol := protocol r\<rparr>)"
    "line_buffer (blk_buffer c) =
      [0, NOT 0] @ ?data @ block_trailer True (crc16 r) ?data @ drop (length ?data + 4) (line_buffer (blk_buffer r))" for c
  proof (rule decode_long_name)
    show "is_text (take (n - 1) name @ name ! (n - 1) # drop n name)" using assms(3) name by simp
    show "line_buffer (blk_buffer c) = [0, NOT 0] @ take (n - 1) name @ name ! (n - 1) # drop n name @ 0 # (more @
        block_trailer True (crc16 r) ?data @ drop (length ?data + 4) (line_buffer (blk_buffer r)))"
      unfolding that(2) data by (subst name) simp
  qed (use that assms(5-11) in \<open>auto simp: same_setup_def min_def\<close>)
  from refused_wire [OF assms(1,2) d assms(12) this] show ?thesis by blast
qed

theorem long_name_refused_witness:
  "\<exists>r'. lmodem_receive (y_demo [block0_frame demo_table (block0_data demo_meta [0x61, 0x62, 0x63, 0x64, 0x65])] demo_file)
      YMODEM = Some (-1, r') \<and> sent (world r') = [char_C, ACK]"
proof -
  let ?name = "[0x61, 0x62, 0x63, 0x64, 0x65] :: u8 list"
  let ?r = "y_demo [block0_frame demo_table (block0_data demo_meta ?name)] demo_file"
  have frame: "block0_frame demo_table (block0_data demo_meta ?name) \<noteq> []" by (simp add: block0_frame_def)
  have "\<exists>r'. lmodem_receive ?r YMODEM = Some (-1, r') \<and> ram_contents (ramfile r') = [] \<and>
    sent (world r') = sent (world ?r) @ [char_C, ACK] \<and> incoming (world r') = []"
    by (rule long_name_refused [where name = ?name and fd = demo_meta and n = 4 and fbuf = "[0x61, 0x62, 0, 0]"])
      (use frame demo_text in \<open>simp_all add: y_demo_fields is_text_def block0_text_def no_number_def is_space_def
        is_digit_def demo_table_def\<close>, simp_all add: demo_meta_def)
  then show ?thesis unfolding y_demo_fields by auto
qed

end
