(* ===== verification/Api.thy ===== *)
theory Api
  imports Ymodem_Kept
begin

text \<open>
  The public interface of the library, \<open>include/lmodem.h\<close>: a caller makes a context with
  \<open>lmodem_init\<close> and then calls what he likes, in any order. Shown: as long as he announces the
  sizes his buffers have, the context stays well-formed, and every call, whole XMODEM transfers
  included, returns without leaving a buffer. A YMODEM transfer that returns leaves a
  well-formed context as well.
\<close>

section \<open>The calls\<close>

text \<open>
  The functions of \<open>lmodem.h\<close>, those of the RAM file applied to the file of the context. The caller's
  objects are arguments; what a getter or a read stores in them is not kept.
\<close>

datatype 'w api_call =
    Init lxmodem_opts
  | Set_putchar_cb "'w putchar_fun option"
  | Set_getchar_cb "'w getchar_fun option"
  | Set_line_buffer "u8 list" u32
  | Set_file_buffer "u8 list" u32
  | Set_filename_buffer "u8 list option" u32
  | Receive lmodem_protocol
  | Emit lmodem_protocol
  | Buffer_set_write_offset u32
  | Buffer_read "u8 list" u32
  | Buffer_write "u8 list" u32
  | Metadata_set_filename "u8 list"
  | Metadata_set_filesize u32
  | Metadata_set_modif_time u32
  | Metadata_set_permission u32
  | Metadata_set_serial u32
  | Metadata_get_filename "u8 list option" u32
  | Metadata_get_filesize "u32 option"
  | Metadata_get_modif_time "u32 option"
  | Metadata_get_permission "u32 option"
  | Metadata_get_serial "u32 option"

fun api_run :: "'w api_call \<Rightarrow> 'w modem_context \<Rightarrow> 'w modem_context option" where
  "api_run (Init op) c = Some (lmodem_init c op)"
| "api_run (Set_putchar_cb cb) c = Some (lmodem_set_putchar_cb c cb)"
| "api_run (Set_getchar_cb cb) c = Some (lmodem_set_getchar_cb c cb)"
| "api_run (Set_line_buffer buffer sz) c = Some (snd (lmodem_set_line_buffer c buffer sz))"
| "api_run (Set_file_buffer buffer sz) c = Some (lmodem_set_file_buffer c buffer sz)"
| "api_run (Set_filename_buffer buffer sz) c = Some (lmodem_set_filename_buffer c buffer sz)"
| "api_run (Receive p) c = map_option snd (lmodem_receive c p)"
| "api_run (Emit p) c = map_option snd (lmodem_emit c p)"
| "api_run (Buffer_set_write_offset n) c =
     Some (c\<lparr>ramfile := snd (lmodem_buffer_set_write_offset (ramfile c) n)\<rparr>)"
| "api_run (Buffer_read dst sz) c = do {
     (n, data, file) \<leftarrow> lmodem_buffer_read (ramfile c) sz;
     dst \<leftarrow> mem_put dst 0 data;
     Some (c\<lparr>ramfile := file\<rparr>)
   }"
| "api_run (Buffer_write src sz) c = do {
     (n, file) \<leftarrow> lmodem_buffer_write (ramfile c) src sz;
     Some (c\<lparr>ramfile := file\<rparr>)
   }"
| "api_run (Metadata_set_filename name) c = lmodem_metadata_set_filename c name"
| "api_run (Metadata_set_filesize x) c = Some (lmodem_metadata_set_filesize c x)"
| "api_run (Metadata_set_modif_time x) c = Some (lmodem_metadata_set_modif_time c x)"
| "api_run (Metadata_set_permission x) c = Some (lmodem_metadata_set_permission c x)"
| "api_run (Metadata_set_serial x) c = Some (lmodem_metadata_set_serial c x)"
| "api_run (Metadata_get_filename dst sz) c = map_option (\<lambda>_. c) (lmodem_metadata_get_filename c dst sz)"
| "api_run (Metadata_get_filesize dst) c = (let _ = lmodem_metadata_get_filesize c dst in Some c)"
| "api_run (Metadata_get_modif_time dst) c = (let _ = lmodem_metadata_get_modif_time c dst in Some c)"
| "api_run (Metadata_get_permission dst) c = (let _ = lmodem_metadata_get_permission c dst in Some c)"
| "api_run (Metadata_get_serial dst) c = (let _ = lmodem_metadata_get_serial c dst in Some c)"

text \<open>
  What the caller owes: the objects have the announced sizes, files have less than 2 GiB, strings
  end, and before a transfer both callbacks and a line buffer are there. A sender's line buffer
  must be larger than \<open>lmodem_set_line_buffer\<close> asks for.
\<close>

fun call_ok :: "'w api_call \<Rightarrow> 'w modem_context \<Rightarrow> bool" where
  "call_ok (Set_getchar_cb cb) c \<longleftrightarrow> (\<forall>g. cb = Some g \<longrightarrow> serial_line g)"
| "call_ok (Set_line_buffer buffer sz) c \<longleftrightarrow> unat sz \<le> length buffer"
| "call_ok (Set_file_buffer buffer sz) c \<longleftrightarrow> unat sz \<le> length buffer \<and> unat sz < 2 ^ 31"
| "call_ok (Set_filename_buffer buffer sz) c \<longleftrightarrow>
     (\<forall>b. buffer = Some b \<longrightarrow> 0 < unat sz \<and> unat sz \<le> length b) \<and>
     (filename_valid c \<longrightarrow> (\<exists>b. buffer = Some b \<and> 0 \<in> set b))"
| "call_ok (Receive p) c \<longleftrightarrow> getchar_cb c \<noteq> None \<and> putchar_cb c \<noteq> None \<and> line_max_size (blk_buffer c) \<noteq> 0 \<and>
     (p = YMODEM \<longrightarrow> 1028 \<le> length (line_buffer (blk_buffer c)) \<and> ram_read_offset (ramfile c) = 0)"
| "call_ok (Emit p) c \<longleftrightarrow> getchar_cb c \<noteq> None \<and> putchar_cb c \<noteq> None \<and>
     tx_line_need (c\<lparr>protocol := p\<rparr>) \<le> length (line_buffer (blk_buffer c))"
| "call_ok (Buffer_set_write_offset n) c \<longleftrightarrow> ram_read_offset (ramfile c) \<le> n"
| "call_ok (Buffer_read dst sz) c \<longleftrightarrow> unat sz \<le> length dst \<and> unat sz < 2 ^ 31"
| "call_ok (Buffer_write src sz) c \<longleftrightarrow> unat sz \<le> length src \<and> unat sz < 2 ^ 31"
| "call_ok (Metadata_set_filename name) c \<longleftrightarrow> 0 \<in> set name"
| "call_ok (Metadata_get_filename dst sz) c \<longleftrightarrow>
     (\<forall>b. dst = Some b \<longrightarrow> 0 < unat sz \<and> unat sz \<le> length b \<and>
       (\<forall>s. filename (file_data c) = Some s \<longrightarrow> unat sz \<le> length s))"
| "call_ok _ c \<longleftrightarrow> True"

text \<open>A well-formed context.\<close>

definition line_ok :: "'w modem_context \<Rightarrow> bool" where
  "line_ok c \<longleftrightarrow> line_max_size (blk_buffer c) = 0 \<or>
     line_buffer_expected_size (opts c) \<le> line_max_size (blk_buffer c) \<and>
     unat (line_max_size (blk_buffer c)) \<le> length (line_buffer (blk_buffer c)) \<and>
     withCrc c = (opts c \<noteq> Lxmodem_128_with_chksum)"

definition context_ok :: "'w modem_context \<Rightarrow> bool" where
  "context_ok c \<longleftrightarrow> crc_ok c \<and> line_ok c \<and> ram_wf (ramfile c) \<and> name_ok (file_data c) \<and>
     (\<forall>g. getchar_cb c = Some g \<longrightarrow> serial_line g)"

inductive api_reach :: "'w modem_context \<Rightarrow> bool" where
  start: "api_reach (lmodem_init c op)"
| call: "api_reach c \<Longrightarrow> call_ok a c \<Longrightarrow> api_run a c = Some c' \<Longrightarrow> api_reach c'"

section \<open>The invariant\<close>

lemma context_ok_init: "context_ok (lmodem_init c op)"
  by (simp add: context_ok_def line_ok_def name_ok_def)
    (simp add: lmodem_init_def memset_context_def Let_def ram_wf_def LMODEM_METADATA_FILENAME_VALID_def)

lemma context_ok_same:
  "context_ok c \<Longrightarrow> same_setup c c' \<Longrightarrow> ram_wf (ramfile c') \<Longrightarrow> context_ok c'"
  by (auto simp: context_ok_def line_ok_def same_setup_def crc_ok_def)

lemma context_ok_file_data:
  "context_ok c \<Longrightarrow> name_ok fd \<Longrightarrow> context_ok (c\<lparr>file_data := fd\<rparr>)"
  by (simp add: context_ok_def line_ok_def crc_ok_def)

lemma context_ok_ramfile: "context_ok c \<Longrightarrow> ram_wf rf \<Longrightarrow> context_ok (c\<lparr>ramfile := rf\<rparr>)"
  by (simp add: context_ok_def line_ok_def crc_ok_def)

lemma context_ok_protocol [simp]: "context_ok (c\<lparr>protocol := p\<rparr>) = context_ok c"
  by (simp add: context_ok_def line_ok_def crc_ok_def)

lemma context_ok_kept: "keeps c c' \<Longrightarrow> context_ok c \<Longrightarrow> context_ok c'"
  by (rule context_ok_same) (auto simp: keeps_def context_ok_def)

lemma receive_ready:
  assumes "context_ok c" and "call_ok (Receive p) c"
  shows "\<exists>g. getchar_cb c = Some g \<and> serial_line g \<and> rx_ready (c\<lparr>protocol := p\<rparr>)"
proof -
  obtain g where "getchar_cb c = Some g" using assms(2) by auto
  moreover have "serial_line g" using assms(1) calculation by (simp add: context_ok_def)
  moreover have "rx_ready (c\<lparr>protocol := p\<rparr>)"
    using assms by (cases "opts c"; cases p)
      (auto simp: rx_ready_def rx_line_need_def context_ok_def line_ok_def word_le_nat_alt)
  ultimately show ?thesis by blast
qed

lemma rx_ready_kept: "keeps c c' \<Longrightarrow> rx_ready c \<Longrightarrow> rx_ready c'"
  by (rule rx_ready_same_setup) (auto simp: keeps_def rx_ready_def)

lemma cut_wf:
  "ram_wf b \<Longrightarrow> ram_read_offset b = 0 \<Longrightarrow> ram_wf (snd (lmodem_buffer_set_write_offset b n))"
  by (auto simp: ram_wf_def lmodem_buffer_set_write_offset_def word_le_nat_alt)

lemma lymodem_receive_ok:
  assumes ok: "context_ok c" and ready: "rx_ready c" and g: "getchar_cb c = Some g" "serial_line g"
    and off: "ram_read_offset (ramfile c) = 0" and run: "lymodem_receive c = Some (r, c')"
  shows "context_ok c'"
proof -
  from run obtain c1 st c2 where pre: "lxmodem_build_and_send_preambule c = Some c1"
    and b0: "lymodem_wait_block0 c1 0 = Some (st, c2)"
    by (auto simp: lymodem_receive_def split: bind_splits)
  have k: "keeps c c2" using replies_kept(1) [OF pre] wait_block0_kept [OF b0] by (rule keeps_trans)
  have c2: "context_ok c2" "rx_ready c2" "getchar_cb c2 = Some g" "ram_read_offset (ramfile c2) = 0"
    using context_ok_kept [OF k ok] rx_ready_kept [OF k ready] k g off
    by (simp_all add: keeps_def same_setup_def)
  let ?fin = "\<lambda>(n :: u32) c. if 0 < n \<and> valid (file_data c) AND LMODEM_METADATA_FILESIZE_VALID = LMODEM_METADATA_FILESIZE_VALID
      then c\<lparr>ramfile := snd (lmodem_buffer_set_write_offset (ramfile c) (file_size (file_data c)))\<rparr> else c"
  have last: "context_ok (?fin n e)" if "context_ok e" "ram_read_offset (ramfile e) = 0" for n :: u32 and e :: "'a modem_context"
  proof -
    have "ram_wf (ramfile e)" using that(1) by (simp add: context_ok_def)
    then show ?thesis using that context_ok_ramfile [OF that(1) cut_wf] by simp
  qed
  have "\<exists>n e. context_ok e \<and> ram_read_offset (ramfile e) = 0 \<and> c' = ?fin n e"
  proof (cases "st = LXMODEM_RECV_OK")
    case False
    with run pre b0 have "c' = ?fin (-1) c2" by (auto simp: lymodem_receive_def)
    with c2 show ?thesis by blast
  next
    case True
    with run pre b0 obtain ok0 c3 where dec: "lymodem_decode_block0 c2 = Some (ok0, c3)"
      by (auto simp: lymodem_receive_def split: bind_splits)
    have "name_ok (file_data c2)" using c2(1) by (simp add: context_ok_def)
    from decode_block0_name [OF dec this] obtain buf fd where
      c3: "c3 = c2\<lparr>blk_buffer := (blk_buffer c2)\<lparr>line_buffer := buf\<rparr>, file_data := fd\<rparr>"
        "length buf = length (line_buffer (blk_buffer c2))" "name_ok fd" by blast
    have c3_ok: "context_ok c3" "ram_read_offset (ramfile c3) = 0"
      using context_ok_file_data [OF context_ok_kept [OF keeps_line(1) [OF c3(2)] c2(1)] c3(3)] c2(4) c3(1) by simp_all
    show ?thesis
    proof (cases ok0)
      case False
      with run pre b0 dec True have "c' = ?fin (-1) c3" by (auto simp: lymodem_receive_def)
      with c3_ok show ?thesis by blast
    next
      case ok0: True
      have ready3: "rx_ready c3" "getchar_cb c3 = Some g"
        using c2(2,3) c3(1,2) by (auto simp: rx_ready_def rx_line_need_def)
      obtain n c4 where rcv: "lxmodem_receive c3 = Some (n, c4)" "same_setup c3 c4" "ram_wf (ramfile c4)"
        using serial_line.receive_returns [OF g(2) ready3(2,1)] by blast
      have c4: "context_ok c4" "ram_read_offset (ramfile c4) = 0"
        using context_ok_same [OF c3_ok(1) rcv(2,3)] receive_same [OF rcv(1)] c3_ok(2) by (simp_all add: same_file_def)
      from run pre b0 dec True ok0 rcv(1) obtain c5 where nxt: "lymodem_block_next_file c4 = Some c5"
        and c': "c' = ?fin n c5"
        by (auto simp: lymodem_receive_def split: bind_splits)
      have "context_ok c5" "ram_read_offset (ramfile c5) = 0"
        using context_ok_kept [OF next_file_kept [OF nxt] c4(1)] keeps_ramfile [OF next_file_kept [OF nxt]] c4(2) by simp_all
      with c' show ?thesis by blast
    qed
  qed
  then show ?thesis using last by blast
qed

lemma tx_ready_kept: "keeps c c' \<Longrightarrow> tx_ready c \<Longrightarrow> tx_ready c'"
  using tx_mode_same_setup [of c c']
  by (auto simp: keeps_def tx_ready_def tx_line_need_def same_setup_def)

lemma lymodem_emit_ok:
  assumes ok: "context_ok c" and ready: "tx_ready c" and g: "getchar_cb c = Some g" "serial_line g"
    and run: "lymodem_emit c = Some (r, c')"
  shows "context_ok c'"
proof -
  from run obtain ok1 c1 where w: "lmodem_wait_reception_of c char_C = Some (ok1, c1)"
    by (auto simp: lymodem_emit_def split: bind_splits)
  have k1: "keeps c c1" using w by (simp add: lmodem_wait_reception_of_def wait_reception_of_kept)
  show ?thesis
  proof (cases ok1)
    case False
    with run w have "c' = c1" by (simp add: lymodem_emit_def)
    with context_ok_kept [OF k1 ok] show ?thesis by simp
  next
    case True
    with run w obtain b c2 ok3 x c3 where b0: "lymodem_build_and_send_block0 c1 = Some (b, c2)"
      and ack: "lymodem_wait_ack c2 0 True 0 = Some (ok3, x, c3)"
      by (auto simp: lymodem_emit_def split: bind_splits)
    note k2 = keeps_trans [OF k1 keeps_trans [OF build_block0_kept [OF b0] wait_ack_kept [OF ack]]]
    have c3: "context_ok c3" "tx_ready c3" "getchar_cb c3 = Some g"
      using context_ok_kept [OF k2 ok] tx_ready_kept [OF k2 ready] k2 g by (simp_all add: keeps_def same_setup_def)
    show ?thesis
    proof (cases ok3)
      case False
      with run w True b0 ack have "c' = c3" by (simp add: lymodem_emit_def)
      with c3 show ?thesis by simp
    next
      case ok3: True
      obtain n c4 where emit: "lxmodem_emit c3 = Some (n, c4)" "same_setup c3 c4" "tx_ready c4"
        using serial_line.emit_returns [OF g(2) c3(3,2) refl] by blast
      then have c4: "context_ok c4" using context_ok_same [OF c3(1)] by (simp add: tx_ready_def)
      from run w True b0 ack ok3 emit(1) obtain ok5 c5 where
        w5: "(if 0 < n then lmodem_wait_reception_of c4 char_C else Some (True, c4)) = Some (ok5, c5)"
        by (auto simp: lymodem_emit_def split: bind_splits)
      then have "keeps c4 c5"
        by (auto simp: lmodem_wait_reception_of_def split: if_splits intro: wait_reception_of_kept)
      then have c5: "context_ok c5" using c4 by (rule context_ok_kept)
      from run w True b0 ack ok3 emit(1) w5 consider "\<not> ok5" "c' = c5"
        | c6 ok7 y where "lymodem_send_end_of_bach c5 = Some c6" "lymodem_wait_ack c6 x ok5 0 = Some (ok7, y, c')"
        by (cases ok5) (auto simp: lymodem_emit_def split: bind_splits)
      then show ?thesis
      proof cases
        case 1
        with c5 show ?thesis by simp
      next
        case 2
        from context_ok_kept [OF keeps_trans [OF end_of_bach_kept [OF 2(1)] wait_ack_kept [OF 2(2)]] c5] show ?thesis .
      qed
    qed
  qed
qed

text \<open>Each call keeps the invariant, and, but for the two YMODEM transfers, returns.\<close>

lemma buffer_write_ok:
  assumes "ram_wf b" and "unat sz \<le> length src" and "unat sz < 2 ^ 31"
  shows "\<exists>n b'. lmodem_buffer_write b src sz = Some (n, b') \<and> ram_wf b'"
  using buffer_write_room [OF assms(1,2)] buffer_write_full [OF assms(1,3), of src] assms(1)
  by (cases "unat sz < ram_room b") auto

lemma buffer_read_ok:
  assumes "ram_wf b" and "unat sz \<le> length dst" and "unat sz < 2 ^ 31"
  shows "\<exists>n xs b' dst'. lmodem_buffer_read b sz = Some (n, xs, b') \<and> mem_put dst 0 xs = Some dst' \<and> ram_wf b'"
proof -
  obtain b' n where b': "lmodem_buffer_read b sz = Some (n, take (unat sz) (ram_unread b), b')" "ram_wf b'"
    using buffer_read_unread [OF assms(1,3)] by blast
  moreover have "\<exists>dst'. mem_put dst 0 (take (unat sz) (ram_unread b)) = Some dst'"
    using assms(2) by (simp add: mem_put_def)
  ultimately show ?thesis by blast
qed

lemma set_filename_ok:
  assumes "name_ok (file_data c)" and "0 \<in> set name"
  shows "\<exists>fd. lmodem_metadata_set_filename c name = Some (c\<lparr>file_data := fd\<rparr>) \<and> name_ok fd"
proof (cases "filename (file_data c)")
  case None
  then have "lmodem_metadata_set_filename c name = Some (c\<lparr>file_data := file_data c\<rparr>)"
    by (simp add: lmodem_metadata_set_filename_def)
  with assms(1) show ?thesis by blast
next
  case (Some buf)
  obtain s rest where name: "name = s @ 0 # rest" "is_text s"
    using assms(2) by (metis is_text_def split_list_first)
  let ?n = "unat (filename_size (file_data c))"
  let ?buf = "stored_name ?n s @ drop ?n buf"
  let ?fd = "file_data c\<lparr>filename := Some ?buf, valid := valid (file_data c) OR LMODEM_METADATA_FILENAME_VALID\<rparr>"
  have n: "0 < ?n" "?n \<le> length buf" using assms(1) Some by (simp_all add: name_ok_def)
  have "lmodem_metadata_set_filename c name = Some (c\<lparr>file_data := ?fd\<rparr>)"
    using set_filename_returns [OF name(2) Some refl n] name(1) by simp
  moreover have "length ?buf = length buf" using n length_stored_name [OF n(1), of s] by simp
  moreover have "0 \<in> set ?buf" by (simp add: stored_name_def)
  ultimately show ?thesis using n by (intro exI [of _ ?fd]) (simp add: name_ok_def)
qed

lemma get_filename_ok:
  assumes "context_ok c" and "call_ok (Metadata_get_filename dst sz) c"
  shows "lmodem_metadata_get_filename c dst sz \<noteq> None"
proof (cases "filename_valid c \<and> dst \<noteq> None")
  case True
  then obtain b s where b: "dst = Some b" "filename (file_data c) = Some s"
    using assms(1) by (auto simp: context_ok_def name_ok_def filename_valid_def)
  then have "0 < unat sz" "unat sz \<le> length b" "unat sz \<le> length s" using assms(2) by auto
  moreover from this have "unat (sz - 1) < length b" by (simp add: unat_u32_sub)
  ultimately show ?thesis
    using b by (auto simp: lmodem_metadata_get_filename_def mem_get_def mem_put_def mem_write_def)
next
  case False
  then show ?thesis by (cases dst) (auto simp: lmodem_metadata_get_filename_def)
qed

lemma metadata_flags_ok:
  "name_ok fd \<Longrightarrow> name_ok (fd\<lparr>file_size := x, valid := valid fd OR LMODEM_METADATA_FILESIZE_VALID\<rparr>)"
  "name_ok fd \<Longrightarrow> name_ok (fd\<lparr>modif_date := x, valid := valid fd OR LMODEM_METADATA_MODIFDATE_VALID\<rparr>)"
  "name_ok fd \<Longrightarrow> name_ok (fd\<lparr>permission := p, valid := valid fd OR LMODEM_METADATA_PERMISSION_VALID\<rparr>)"
  "name_ok fd \<Longrightarrow> name_ok (fd\<lparr>serial_number := x, valid := valid fd OR LMODEM_METADATA_SERIAL_VALID\<rparr>)"
  unfolding name_ok_def filename_flag
  by (simp_all add: even_or_iff LMODEM_METADATA_FILESIZE_VALID_def LMODEM_METADATA_MODIFDATE_VALID_def
      LMODEM_METADATA_PERMISSION_VALID_def LMODEM_METADATA_SERIAL_VALID_def)

text \<open>The call returns, and leaves a well-formed context.\<close>

definition call_safe :: "'w api_call \<Rightarrow> 'w modem_context \<Rightarrow> bool" where
  "call_safe a c \<longleftrightarrow> (\<exists>c'. api_run a c = Some c' \<and> context_ok c')"

lemma receive_xmodem_safe:
  assumes "context_ok c" and "call_ok (Receive XMODEM) c"
  shows "call_safe (Receive XMODEM) c"
proof -
  let ?c = "c\<lparr>protocol := XMODEM\<rparr>"
  obtain g where g: "getchar_cb c = Some g" "serial_line g" "rx_ready ?c"
    using receive_ready [OF assms] by blast
  obtain r c1 where "lxmodem_receive ?c = Some (r, c1)" "same_setup ?c c1" "ram_wf (ramfile c1)"
    using serial_line.receive_returns [OF g(2) _ g(3)] g(1) by auto
  then show ?thesis using context_ok_same [of ?c c1] assms(1) by (simp add: call_safe_def lmodem_receive_def)
qed

lemma emit_ready:
  assumes "context_ok c" and "call_ok (Emit p) c"
  shows "\<exists>g. getchar_cb c = Some g \<and> serial_line g \<and> tx_ready (c\<lparr>protocol := p\<rparr>)"
  using assms by (auto simp: context_ok_def tx_ready_def)

lemma emit_xmodem_safe:
  assumes "context_ok c" and "call_ok (Emit XMODEM) c"
  shows "call_safe (Emit XMODEM) c"
proof -
  let ?c = "c\<lparr>protocol := XMODEM\<rparr>"
  obtain g where g: "getchar_cb c = Some g" "serial_line g" "tx_ready ?c"
    using emit_ready [OF assms] by blast
  obtain r c1 where "lxmodem_emit ?c = Some (r, c1)" "same_setup ?c c1" "tx_ready c1"
    using serial_line.emit_returns [OF g(2) _ g(3) refl] g(1) by auto
  then show ?thesis using context_ok_same [of ?c c1] assms(1)
    by (simp add: call_safe_def lmodem_emit_def tx_ready_def)
qed

text \<open>A transfer by YMODEM, if it returns.\<close>

lemma ymodem_calls_ok:
  assumes "context_ok c" and "call_ok a c" and "a = Receive YMODEM \<or> a = Emit YMODEM" and "api_run a c = Some c'"
  shows "context_ok c'"
  using assms(3)
proof
  assume a: "a = Receive YMODEM"
  let ?c = "c\<lparr>protocol := YMODEM\<rparr>"
  obtain g where g: "getchar_cb c = Some g" "serial_line g" "rx_ready ?c"
    using receive_ready [of c YMODEM] assms(1,2) a by blast
  have "ram_read_offset (ramfile ?c) = 0" using assms(2) a by simp
  with lymodem_receive_ok [OF _ g(3) _ g(2) this] g(1) assms(1,4) a show ?thesis
    by (auto simp: lmodem_receive_def)
next
  assume a: "a = Emit YMODEM"
  let ?c = "c\<lparr>protocol := YMODEM\<rparr>"
  obtain g where g: "getchar_cb c = Some g" "serial_line g" "tx_ready ?c"
    using emit_ready [of c YMODEM] assms(1,2) a by blast
  with lymodem_emit_ok [OF _ g(3) _ g(2)] assms(1,4) a show ?thesis by (auto simp: lmodem_emit_def)
qed

text \<open>The calls that set up the context, and those on the RAM file and the metadata.\<close>

lemma init_safe: "call_safe (Init op) c"
  by (simp add: call_safe_def context_ok_init)

lemma set_callbacks_safe:
  assumes "context_ok c"
  shows "call_safe (Set_putchar_cb pcb) c" and "call_ok (Set_getchar_cb gcb) c \<Longrightarrow> call_safe (Set_getchar_cb gcb) c"
  using assms
  by (simp_all add: call_safe_def context_ok_def line_ok_def crc_ok_def lmodem_set_putchar_cb_def
      lmodem_set_getchar_cb_def)

lemma set_line_buffer_safe:
  assumes "context_ok c" and "call_ok (Set_line_buffer buffer sz) c"
  shows "call_safe (Set_line_buffer buffer sz) c"
  using assms
  by (auto simp: call_safe_def context_ok_def line_ok_def crc_ok_def lmodem_set_line_buffer_def Let_def)

lemma set_file_buffer_safe:
  assumes "context_ok c" and "call_ok (Set_file_buffer buffer sz) c"
  shows "call_safe (Set_file_buffer buffer sz) c"
  using assms context_ok_ramfile [OF assms(1) ram_wf_init] by (simp add: call_safe_def lmodem_set_file_buffer_def)

lemma set_filename_buffer_safe:
  assumes "context_ok c" and "call_ok (Set_filename_buffer buffer sz) c"
  shows "call_safe (Set_filename_buffer buffer sz) c"
proof -
  have "name_ok (file_data c\<lparr>filename := buffer, filename_size := sz\<rparr>)"
    using assms(2) by (auto simp: name_ok_def filename_valid_def)
  from context_ok_file_data [OF assms(1) this] show ?thesis
    by (simp add: call_safe_def lmodem_set_filename_buffer_def)
qed

lemmas setup_calls_safe = init_safe set_callbacks_safe set_line_buffer_safe set_file_buffer_safe
  set_filename_buffer_safe

lemma file_calls_safe:
  assumes "context_ok c"
  shows "call_ok (Buffer_set_write_offset n) c \<Longrightarrow> call_safe (Buffer_set_write_offset n) c"
    and "call_ok (Buffer_read dst sz) c \<Longrightarrow> call_safe (Buffer_read dst sz) c"
    and "call_ok (Buffer_write src sz) c \<Longrightarrow> call_safe (Buffer_write src sz) c"
proof -
  have wf: "ram_wf (ramfile c)" using assms by (simp add: context_ok_def)
  note rf = context_ok_ramfile [OF assms]
  have "ram_wf (snd (lmodem_buffer_set_write_offset (ramfile c) n))" if "ram_read_offset (ramfile c) \<le> n"
    using that wf by (auto simp: ram_wf_def lmodem_buffer_set_write_offset_def word_le_nat_alt)
  with rf show "call_ok (Buffer_set_write_offset n) c \<Longrightarrow> call_safe (Buffer_set_write_offset n) c"
    by (simp add: call_safe_def)
  show "call_ok (Buffer_read dst sz) c \<Longrightarrow> call_safe (Buffer_read dst sz) c"
    using buffer_read_ok [OF wf, of sz dst] rf by (auto simp: call_safe_def)
  show "call_ok (Buffer_write src sz) c \<Longrightarrow> call_safe (Buffer_write src sz) c"
    using buffer_write_ok [OF wf, of sz src] rf by (auto simp: call_safe_def)
qed

lemma metadata_setters_safe:
  assumes "context_ok c"
  shows "call_ok (Metadata_set_filename name) c \<Longrightarrow> call_safe (Metadata_set_filename name) c"
    and "call_safe (Metadata_set_filesize x) c" and "call_safe (Metadata_set_modif_time x) c"
    and "call_safe (Metadata_set_permission x) c" and "call_safe (Metadata_set_serial x) c"
proof -
  have nm: "name_ok (file_data c)" using assms by (simp add: context_ok_def)
  note fd = context_ok_file_data [OF assms]
  show "call_ok (Metadata_set_filename name) c \<Longrightarrow> call_safe (Metadata_set_filename name) c"
    using set_filename_ok [OF nm, of name] fd by (auto simp: call_safe_def)
  show "call_safe (Metadata_set_filesize x) c" "call_safe (Metadata_set_modif_time x) c"
    "call_safe (Metadata_set_permission x) c" "call_safe (Metadata_set_serial x) c"
    using fd [OF metadata_flags_ok(1) [OF nm]] fd [OF metadata_flags_ok(2) [OF nm]]
      fd [OF metadata_flags_ok(3) [OF nm]] fd [OF metadata_flags_ok(4) [OF nm]]
    by (simp_all add: call_safe_def lmodem_metadata_set_filesize_def lmodem_metadata_set_modif_time_def
        lmodem_metadata_set_permission_def lmodem_metadata_set_serial_def)
qed

lemma metadata_getters_safe:
  assumes "context_ok c"
  shows "call_ok (Metadata_get_filename ndst sz) c \<Longrightarrow> call_safe (Metadata_get_filename ndst sz) c"
    and "call_safe (Metadata_get_filesize dst) c" and "call_safe (Metadata_get_modif_time dst) c"
    and "call_safe (Metadata_get_permission dst) c" and "call_safe (Metadata_get_serial dst) c"
  using get_filename_ok [OF assms, of ndst sz] assms by (auto simp: call_safe_def)

lemma api_call_safe:
  assumes "context_ok c" and "call_ok a c" and "a \<noteq> Receive YMODEM" and "a \<noteq> Emit YMODEM"
  shows "call_safe a c"
proof (cases a)
  case (Receive p)
  with assms receive_xmodem_safe show ?thesis by (cases p) auto
next
  case (Emit p)
  with assms emit_xmodem_safe show ?thesis by (cases p) auto
qed (use assms(1,2) in \<open>simp_all only: setup_calls_safe file_calls_safe metadata_setters_safe metadata_getters_safe\<close>)

lemma api_run_ok:
  assumes "context_ok c" and "call_ok a c" and "api_run a c = Some c'"
  shows "context_ok c'"
  using ymodem_calls_ok [OF assms(1,2) _ assms(3)] api_call_safe [OF assms(1,2)] assms(3)
  by (auto simp: call_safe_def)

lemma api_reach_ok: "api_reach c \<Longrightarrow> context_ok c"
proof (induction rule: api_reach.induct)
  case (start c op)
  show ?case by (rule context_ok_init)
next
  case (call c a c')
  from api_run_ok [OF call.IH call.hyps(2,3)] show ?case .
qed

section \<open>Properties\<close>

text \<open>
  C9: Well-formedness is an invariant of the interface. In whatever order a caller uses the functions
  of \<open>lmodem.h\<close> after \<open>lmodem_init\<close>, if the sizes he announces are those of his buffers, the context
  stays well-formed, over transfers by XMODEM and by YMODEM in both directions: the CRC table is
  that of the polynomial, the line buffer is as large as announced and fits the mode, the file's
  offsets are in order and inside it, and a name marked valid ends inside its buffer.
\<close>

theorem api_keeps_context:
  assumes "api_reach c"
  shows "crc_ok c \<and> ram_wf (ramfile c) \<and>
    (line_max_size (blk_buffer c) = 0 \<or>
     line_buffer_expected_size (opts c) \<le> line_max_size (blk_buffer c) \<and>
     unat (line_max_size (blk_buffer c)) \<le> length (line_buffer (blk_buffer c)) \<and>
     withCrc c = (opts c \<noteq> Lxmodem_128_with_chksum)) \<and>
    (\<forall>b. filename (file_data c) = Some b \<longrightarrow> unat (filename_size (file_data c)) \<le> length b) \<and>
    (filename_valid c \<longrightarrow> (\<exists>name rest. is_text name \<and> filename (file_data c) = Some (name @ 0 # rest)))"
proof -
  have ok: "context_ok c" using assms by (rule api_reach_ok)
  have "\<exists>name rest. is_text name \<and> filename (file_data c) = Some (name @ 0 # rest)" if v: "filename_valid c"
  proof -
    obtain b where b: "filename (file_data c) = Some b" "0 \<in> set b"
      using ok v by (auto simp: context_ok_def name_ok_def filename_valid_def)
    from split_list_first [OF b(2)] b(1) show ?thesis by (auto simp: is_text_def)
  qed
  with ok show ?thesis by (simp add: context_ok_def line_ok_def name_ok_def)
qed

text \<open>The caller of the witnesses: a receiver with a buffer for 128 byte blocks and a file of 256 bytes.\<close>

definition demo_setup :: "unit modem_context" where
  "demo_setup = lmodem_set_putchar_cb (lmodem_set_getchar_cb (lmodem_set_file_buffer
     (snd (lmodem_set_line_buffer (lmodem_init (unset_context ()) Lxmodem_128_with_crc) (replicate 132 0) 132))
     (replicate 256 0) 256) (Some (serial_getchar (\<lambda>w n. (None, w))))) (Some (\<lambda>w data. w))"

lemma demo_setup_reached: "api_reach demo_setup"
proof -
  let ?c = "lmodem_init (unset_context ()) Lxmodem_128_with_crc"
  note reach = api_reach.call [OF api_reach.start [of "unset_context ()" Lxmodem_128_with_crc],
      of "Set_line_buffer (replicate 132 0) 132"]
  have "api_reach (snd (lmodem_set_line_buffer ?c (replicate 132 0) 132))" by (rule reach) simp_all
  from api_reach.call [OF this, of "Set_file_buffer (replicate 256 0) 256"]
  have "api_reach (lmodem_set_file_buffer (snd (lmodem_set_line_buffer ?c (replicate 132 0) 132)) (replicate 256 0) 256)"
    by simp
  from api_reach.call [OF this, of "Set_getchar_cb (Some (serial_getchar (\<lambda>w n. (None, w))))"]
    tty.serial_line_axioms [of "\<lambda>(w :: unit) n. (None, w)"]
  have "api_reach (lmodem_set_getchar_cb (lmodem_set_file_buffer (snd (lmodem_set_line_buffer ?c (replicate 132 0) 132))
      (replicate 256 0) 256) (Some (serial_getchar (\<lambda>w n. (None, w)))))"
    by simp
  from api_reach.call [OF this, of "Set_putchar_cb (Some (\<lambda>w data. w))"] show ?thesis
    by (simp add: demo_setup_def)
qed

theorem api_keeps_context_witness:
  "\<exists>c. api_run (Receive XMODEM) demo_setup = Some c \<and> crc_ok c \<and> ram_wf (ramfile c)"
proof -
  have ok: "call_ok (Receive XMODEM) demo_setup"
    by (simp add: demo_setup_def lmodem_set_putchar_cb_def lmodem_set_getchar_cb_def lmodem_set_file_buffer_def
        lmodem_set_line_buffer_def lmodem_init_def memset_context_def Let_def)
  obtain c where c: "api_run (Receive XMODEM) demo_setup = Some c"
    using api_call_safe [OF api_reach_ok [OF demo_setup_reached] ok] by (auto simp: call_safe_def)
  have "api_reach c" by (rule api_reach.call [OF demo_setup_reached ok c])
  from api_keeps_context [OF this] c show ?thesis by blast
qed

text \<open>
  C8: Every call is safe. From every context a caller can reach, each function of the interface
  returns without leaving a buffer, whatever the port does: \<open>lmodem_receive\<close> by XMODEM as soon as
  callbacks and a line buffer are set, \<open>lmodem_emit\<close> by XMODEM with a line buffer that holds a whole
  block. The two YMODEM transfers are left out: they need not return.
\<close>

theorem api_calls_return:
  assumes "api_reach c" and "call_ok a c" and "a \<noteq> Receive YMODEM" and "a \<noteq> Emit YMODEM"
  shows "\<exists>c'. api_run a c = Some c' \<and> api_reach c'"
proof -
  obtain c' where "api_run a c = Some c'"
    using api_call_safe [OF api_reach_ok [OF assms(1)] assms(2-4)] by (auto simp: call_safe_def)
  with api_reach.call [OF assms(1,2)] show ?thesis by blast
qed

theorem api_calls_return_witness:
  "\<exists>c. api_run (Buffer_read (replicate 64 0) 64) demo_setup = Some c \<and> api_reach c"
  by (rule api_calls_return [OF demo_setup_reached]) simp_all

end
