(* ===== verification/Rzsz.thy ===== *)
theory Rzsz
  imports Ymodem_Rx Ymodem_Tx Serial
begin

text \<open>
  \<open>tools/rzsz.c\<close>: the command that sends or receives one file. \<open>getopt_long\<close> gives the list of
  options with their arguments (C strings, here without the zero), \<open>stat\<close> and the file system
  the contents of the file to send, \<open>malloc\<close> the line buffer; these are arguments. What is left
  out is the printing, and the opening and closing of files and of the port.
\<close>

section \<open>Options\<close>

datatype OPTS =
  OPTS_PROTOCOL | OPTS_DEVICE | OPTS_SPEED | OPTS_PARITY | OPTS_CTRL_FLOW | OPTS_NB_STOP
  | OPTS_CRC | OPTS_1K | OPTS_TX | OPTS_RX | OPTS_FILE | OPTS_UNKNOWN

text \<open>The protocol is stored as given, whether or not it is one of the enumeration.\<close>

record options_t =
  opt_protocol :: u32
  opt_device :: "u8 list option"
  opt_speed :: u32
  opt_parity :: u32
  opt_ctrl_flow :: u32
  opt_nb_stop :: u32
  opt_crc :: u32
  opt_xmodem_blksize :: u32
  opt_tx :: u32
  opt_rx :: u32
  opt_filename :: "u8 list option"

definition options_zero :: options_t where
  "options_zero = \<lparr>opt_protocol = 0, opt_device = None, opt_speed = 0, opt_parity = 0,
     opt_ctrl_flow = 0, opt_nb_stop = 0, opt_crc = 0, opt_xmodem_blksize = 0, opt_tx = 0,
     opt_rx = 0, opt_filename = None\<rparr>"

text \<open>\<open>strtoul(optarg, NULL, 0)\<close> stored in a \<open>uint32_t\<close>.\<close>

definition optarg_value :: "u8 list \<Rightarrow> u32 option" where
  "optarg_value arg = map_option (\<lambda>(v, n). ucast v) (strtoul0 (arg @ [0]))"

text \<open>One round of the \<open>while (1)\<close>: \<open>Some None\<close> is \<open>exit(EXIT_FAILURE)\<close>.\<close>

fun parse_option :: "options_t \<Rightarrow> OPTS \<Rightarrow> u8 list \<Rightarrow> options_t option option" where
  "parse_option o1 OPTS_PROTOCOL arg = do { v \<leftarrow> optarg_value arg; Some (Some (o1\<lparr>opt_protocol := v\<rparr>)) }"
| "parse_option o1 OPTS_DEVICE arg = Some (Some (o1\<lparr>opt_device := Some arg\<rparr>))"
| "parse_option o1 OPTS_SPEED arg = do { v \<leftarrow> optarg_value arg; Some (Some (o1\<lparr>opt_speed := v\<rparr>)) }"
| "parse_option o1 OPTS_PARITY arg = do { v \<leftarrow> optarg_value arg; Some (Some (o1\<lparr>opt_parity := v\<rparr>)) }"
| "parse_option o1 OPTS_CTRL_FLOW arg = do { v \<leftarrow> optarg_value arg; Some (Some (o1\<lparr>opt_ctrl_flow := v\<rparr>)) }"
| "parse_option o1 OPTS_NB_STOP arg = do { v \<leftarrow> optarg_value arg; Some (Some (o1\<lparr>opt_nb_stop := v\<rparr>)) }"
| "parse_option o1 OPTS_CRC arg = Some (Some (o1\<lparr>opt_crc := 1\<rparr>))"
| "parse_option o1 OPTS_1K arg = Some (Some (o1\<lparr>opt_xmodem_blksize := 1\<rparr>))"
| "parse_option o1 OPTS_TX arg = Some (Some (o1\<lparr>opt_tx := 1\<rparr>))"
| "parse_option o1 OPTS_RX arg = Some (Some (o1\<lparr>opt_rx := 1\<rparr>))"
| "parse_option o1 OPTS_FILE arg = Some (Some (o1\<lparr>opt_filename := Some arg\<rparr>))"
| "parse_option o1 OPTS_UNKNOWN arg = Some None"

fun parse_options_loop :: "options_t \<Rightarrow> (OPTS \<times> u8 list) list \<Rightarrow> options_t option option" where
  "parse_options_loop o1 [] = Some (Some o1)"
| "parse_options_loop o1 ((x, arg) # args) = do {
     r \<leftarrow> parse_option o1 x arg;
     (case r of None \<Rightarrow> Some None | Some o2 \<Rightarrow> parse_options_loop o2 args)
   }"

text \<open>The checks after the loop, and the whole of \<open>parse_options\<close>: \<open>Some None\<close> is a refusal.\<close>

definition options_valid :: "options_t \<Rightarrow> bool" where
  "options_valid o1 \<longleftrightarrow>
     (opt_protocol o1 = 0 \<or> opt_protocol o1 = 1) \<and> opt_device o1 \<noteq> None \<and>
     (opt_tx o1 XOR opt_rx o1) \<noteq> 0 \<and> opt_filename o1 \<noteq> None"

definition parse_options :: "(OPTS \<times> u8 list) list \<Rightarrow> options_t option option" where
  "parse_options args = do {
     r \<leftarrow> parse_options_loop options_zero args;
     Some (case r of None \<Rightarrow> None | Some o1 \<Rightarrow> if options_valid o1 then Some o1 else None)
   }"

section \<open>The set-up\<close>

definition LXMODEM_128_CHKSUM_BUFFER_MIN_SIZE :: u32 where
  [simp]: "LXMODEM_128_CHKSUM_BUFFER_MIN_SIZE = 1 + 2 + 128 + 1"
definition LXMODEM_128_CRC_BUFFER_MIN_SIZE :: u32 where
  [simp]: "LXMODEM_128_CRC_BUFFER_MIN_SIZE = 1 + 2 + 128 + 2"
definition LXMODEM_1K_BUFFER_MIN_SIZE :: u32 where
  [simp]: "LXMODEM_1K_BUFFER_MIN_SIZE = 1 + 2 + 1024 + 2"
definition LYMODEM_BUFFER_MIN_SIZE :: u32 where
  [simp]: "LYMODEM_BUFFER_MIN_SIZE = LXMODEM_1K_BUFFER_MIN_SIZE"

text \<open>
  The mode and the size of the line buffer that \<open>main\<close> chooses. Behind \<open>parse_options\<close> the protocol is
  0 or 1 (\<open>parse_accepted\<close>), so every other number than 0 is taken for \<open>YMODEM\<close>, here and below; the
  code would leave the size at 0 for a number that is neither.
\<close>

definition main_opts :: "options_t \<Rightarrow> lxmodem_opts \<times> u32" where
  "main_opts o1 =
     (if opt_protocol o1 = 0 then
        (if opt_xmodem_blksize o1 > 0 then (Lxmodem_1k, LXMODEM_1K_BUFFER_MIN_SIZE)
         else if opt_crc o1 > 0 then (Lxmodem_128_with_crc, LXMODEM_128_CRC_BUFFER_MIN_SIZE)
         else (Lxmodem_128_with_chksum, LXMODEM_128_CHKSUM_BUFFER_MIN_SIZE))
      else (Lxmodem_128_with_chksum, LYMODEM_BUFFER_MIN_SIZE))"

text \<open>
  From \<open>lmodem_init\<close> to the callbacks; \<open>buf\<close> is the object \<open>malloc\<close> returned. \<open>None\<close> is the
  exit after an internal error.
\<close>

definition main_setup ::
  "options_t \<Rightarrow> 'w read_call \<Rightarrow> 'w write_call \<Rightarrow> u8 list \<Rightarrow> 'w modem_context \<Rightarrow> 'w modem_context option" where
  "main_setup o1 rd wr buf c =
     (let (op, sz) = main_opts o1;
          c = lmodem_init c op;
          (bOk, c) = lmodem_set_line_buffer c buf sz
      in if bOk then
           (let c = lmodem_set_filename_buffer c (Some (replicate 256 0)) 256;
                c = lmodem_set_getchar_cb c (Some (serial_getchar rd))
            in Some (lmodem_set_putchar_cb c (Some (serial_putchar wr))))
         else None)"

definition main_protocol :: "options_t \<Rightarrow> lmodem_protocol" where
  "main_protocol o1 = (if opt_protocol o1 = 0 then XMODEM else YMODEM)"

section \<open>Sending and receiving a file\<close>

text \<open>\<open>strrchr(s, '/') + 1\<close>: what follows the last slash; without one the pointer is invalid.\<close>

fun after_last_slash :: "u8 list \<Rightarrow> u8 list option" where
  "after_last_slash [] = None"
| "after_last_slash (x # xs) =
     (case after_last_slash xs of
        Some ys \<Rightarrow> Some ys
      | None \<Rightarrow> if x = 0x2F then Some xs else None)"

text \<open>
  \<open>do_file_transmission\<close>: \<open>contents\<close> are the bytes of the file (\<open>st_size\<close> is their number),
  \<open>mtime\<close> and \<open>mode\<close> what \<open>stat\<close> says. The exit code is 0 for success. A failed \<open>assert\<close> is \<open>None\<close>.
\<close>

definition do_file_transmission ::
  "options_t \<Rightarrow> u8 list \<Rightarrow> u32 \<Rightarrow> u32 \<Rightarrow> 'w modem_context \<Rightarrow> (nat \<times> 'w modem_context) option" where
  "do_file_transmission o1 contents mtime mode c = do {
     let st_size = (word_of_nat (length contents) :: u32);
     let c = lmodem_set_file_buffer c contents st_size;
     let (b, file) = lmodem_buffer_set_write_offset (ramfile c) st_size;
     let c = c\<lparr>ramfile := file\<rparr>;
     _ \<leftarrow> (if b then Some () else None);
     c \<leftarrow>
       (if main_protocol o1 = YMODEM then do {
          path \<leftarrow> opt_filename o1;
          name \<leftarrow> after_last_slash path;
          c \<leftarrow> lmodem_metadata_set_filename c (name @ [0]);
          let c = lmodem_metadata_set_filesize c st_size;
          let c = lmodem_metadata_set_modif_time c mtime;
          let c = lmodem_metadata_set_permission c mode;
          Some (lmodem_metadata_set_serial c 0)
        } else Some c);
     (nbBytesEmitted, c) \<leftarrow> lmodem_emit c (main_protocol o1);
     Some (if sint nbBytesEmitted \<ge> 0 then 0 else 1, c)
   }"

definition BUFFER_FILE_SIZE :: u32 where
  "BUFFER_FILE_SIZE = 1024 * 1024"

text \<open>\<open>do_file_reception\<close>: the exit code and the bytes written to the file.\<close>

definition do_file_reception ::
  "options_t \<Rightarrow> 'w modem_context \<Rightarrow> (nat \<times> u8 list \<times> 'w modem_context) option" where
  "do_file_reception o1 c = do {
     let c = lmodem_set_file_buffer c (replicate (unat BUFFER_FILE_SIZE) 0) BUFFER_FILE_SIZE;
     (nbBytesReceived, c) \<leftarrow> lmodem_receive c (main_protocol o1);
     if sint nbBytesReceived \<ge> 0 then do {
       out \<leftarrow> mem_get (ram_buffer (ramfile c)) 0 (unat (ram_write_offset (ramfile c)));
       Some (0, out, c)
     } else Some (1, [], c)
   }"

section \<open>What the options guarantee\<close>

lemma parse_option_flags:
  "parse_option o1 x arg = Some (Some o2) \<Longrightarrow> opt_tx o1 \<le> 1 \<and> opt_rx o1 \<le> 1 \<Longrightarrow> opt_tx o2 \<le> 1 \<and> opt_rx o2 \<le> 1"
  by (cases x) (auto split: bind_splits)

lemma parse_loop_flags:
  "parse_options_loop o1 args = Some (Some o2) \<Longrightarrow> opt_tx o1 \<le> 1 \<and> opt_rx o1 \<le> 1 \<Longrightarrow>
    opt_tx o2 \<le> 1 \<and> opt_rx o2 \<le> 1"
proof (induction o1 args rule: parse_options_loop.induct)
  case (2 o1 x arg args)
  from "2.prems"(1) obtain r where r: "parse_option o1 x arg = Some (Some r)"
    "parse_options_loop r args = Some (Some o2)"
    by (auto split: bind_splits option.splits)
  with "2.IH" [OF r(1)] parse_option_flags [OF r(1) "2.prems"(2)] show ?case by simp
qed simp

lemma flag_cases: "(x :: u32) \<le> 1 \<longleftrightarrow> x = 0 \<or> x = 1"
  by (auto simp: word_le_nat_alt word_unat_eq_iff)

lemma parse_accepted:
  assumes "parse_options args = Some (Some o1)"
  shows "(opt_protocol o1 = 0 \<or> opt_protocol o1 = 1) \<and> opt_device o1 \<noteq> None \<and> opt_filename o1 \<noteq> None \<and>
    (opt_tx o1 = 1 \<and> opt_rx o1 = 0 \<or> opt_tx o1 = 0 \<and> opt_rx o1 = 1)"
proof -
  have loop: "parse_options_loop options_zero args = Some (Some o1)" and v: "options_valid o1"
    using assms by (auto simp: parse_options_def split: bind_splits option.splits if_splits)
  from parse_loop_flags [OF loop] have "opt_tx o1 \<le> 1 \<and> opt_rx o1 \<le> 1" by (simp add: options_zero_def)
  with v show ?thesis by (auto simp: options_valid_def flag_cases)
qed

section \<open>Properties\<close>

text \<open>
  C28: A command line that \<open>parse_options\<close> accepts names XMODEM or YMODEM, a device and a file, and
  exactly one of sending and receiving; so \<open>main\<close> runs exactly one of the two transfers.
\<close>

theorem parse_options_accepts:
  assumes "parse_options args = Some (Some o1)"
  shows "(opt_protocol o1 = 0 \<or> opt_protocol o1 = 1) \<and> opt_device o1 \<noteq> None \<and> opt_filename o1 \<noteq> None \<and>
    (opt_tx o1 = 1 \<and> opt_rx o1 = 0 \<or> opt_tx o1 = 0 \<and> opt_rx o1 = 1)"
  using assms by (rule parse_accepted)

theorem parse_options_accepts_witness:
  "\<exists>o1. parse_options [(OPTS_PROTOCOL, [0x30, 0x78, 0x31]), (OPTS_DEVICE, [0x64]), (OPTS_FILE, [0x66]), (OPTS_TX, [])]
      = Some (Some o1) \<and> opt_rx o1 = 0"
proof -
  have "parse_options [(OPTS_PROTOCOL, [0x30, 0x78, 0x31]), (OPTS_DEVICE, [0x64]), (OPTS_FILE, [0x66]), (OPTS_TX, [])]
      = Some (Some (options_zero\<lparr>opt_protocol := 1, opt_device := Some [0x64], opt_filename := Some [0x66], opt_tx := 1\<rparr>))"
    by (simp add: parse_options_def options_valid_def options_zero_def optarg_value_def strtoul0_def is_space_def
        hex_digit_def hex_value_def)
  from parse_options_accepts [OF this] this show ?thesis by (auto simp: options_zero_def)
qed

end
