(* ===== verification/Termios.thy ===== *)
theory Termios
  imports Serial
begin

text \<open>
  \<open>tools/serial.c\<close>: opening the serial port and setting the line. The terminal attributes are the
  record \<open>termios\<close> with the flag words and bits of Linux (\<open>asm-generic/termbits.h\<close>); \<open>cfmakeraw\<close> and
  \<open>cfsetospeed\<close> are the library functions as their manual page gives them. The system calls are
  the record \<open>tty_calls\<close>. Shown: what the line is set to, that a second setting changes nothing more,
  and what the parity argument does to the speed.
\<close>

section \<open>Terminal attributes\<close>

record termios =
  c_iflag :: u32
  c_oflag :: u32
  c_cflag :: u32
  c_lflag :: u32
  c_vmin :: u8
  c_vtime :: u8
  c_ispeed :: u32
  c_ospeed :: u32

named_theorems termios_bits \<open>the flag words of the line settings\<close>

definition CBAUD :: u32 where [termios_bits]: "CBAUD = 0x100F"
definition CSIZE :: u32 where [termios_bits]: "CSIZE = 0x30"
definition CS8 :: u32 where [termios_bits]: "CS8 = 0x30"
definition CSTOPB :: u32 where [termios_bits]: "CSTOPB = 0x40"
definition CREAD :: u32 where [termios_bits]: "CREAD = 0x80"
definition PARENB :: u32 where [termios_bits]: "PARENB = 0x100"
definition PARODD :: u32 where [termios_bits]: "PARODD = 0x200"
definition CLOCAL :: u32 where [termios_bits]: "CLOCAL = 0x800"
definition CRTSCTS :: u32 where [termios_bits]: "CRTSCTS = 0x80000000"
definition IBAUD0 :: u32 where [termios_bits]: "IBAUD0 = 0x80000000"

text \<open>The bits that \<open>cfmakeraw\<close> clears: \<open>IGNBRK | BRKINT | PARMRK | ISTRIP | INLCR | IGNCR | ICRNL | IXON\<close>,
  \<open>OPOST\<close>, and \<open>ECHO | ECHONL | ICANON | ISIG | IEXTEN\<close>.\<close>

definition raw_iflag :: u32 where
  [termios_bits]: "raw_iflag = 0x1 OR 0x2 OR 0x8 OR 0x20 OR 0x40 OR 0x80 OR 0x100 OR 0x400"
definition raw_oflag :: u32 where [termios_bits]: "raw_oflag = 0x1"
definition raw_lflag :: u32 where [termios_bits]: "raw_lflag = 0x8 OR 0x40 OR 0x2 OR 0x1 OR 0x8000"

definition cfmakeraw :: "termios \<Rightarrow> termios" where
  "cfmakeraw t = t\<lparr>c_iflag := c_iflag t AND NOT raw_iflag, c_oflag := c_oflag t AND NOT raw_oflag,
     c_lflag := c_lflag t AND NOT raw_lflag, c_cflag := (c_cflag t AND NOT (CSIZE OR PARENB)) OR CS8,
     c_vmin := 1, c_vtime := 0\<rparr>"

text \<open>The speeds used here are all valid, so both calls succeed.\<close>

definition cfsetospeed :: "termios \<Rightarrow> u32 \<Rightarrow> termios" where
  "cfsetospeed t speed = t\<lparr>c_ospeed := speed, c_cflag := (c_cflag t AND NOT CBAUD) OR speed\<rparr>"

definition cfsetispeed :: "termios \<Rightarrow> u32 \<Rightarrow> termios" where
  "cfsetispeed t speed = t\<lparr>c_ispeed := speed, c_iflag := c_iflag t AND NOT IBAUD0,
     c_cflag := (c_cflag t AND NOT CBAUD) OR speed\<rparr>"

fun speed_bits :: "speed_flag \<Rightarrow> u32" where
  "speed_bits B134 = 0x4" | "speed_bits B150 = 0x5" | "speed_bits B200 = 0x6" | "speed_bits B300 = 0x7"
| "speed_bits B600 = 0x8" | "speed_bits B1200 = 0x9" | "speed_bits B1800 = 0xA" | "speed_bits B2400 = 0xB"
| "speed_bits B4800 = 0xC" | "speed_bits B9600 = 0xD" | "speed_bits B19200 = 0xE" | "speed_bits B38400 = 0xF"
| "speed_bits B57600 = 0x1001" | "speed_bits B115200 = 0x1002"

section \<open>The code\<close>

text \<open>
  The system calls: \<open>open\<close> gives a descriptor, negative on an error; \<open>tcgetattr\<close> the attributes, or
  \<open>None\<close> for \<open>-1\<close>; \<open>tcsetattr\<close> whether it returned 0. Descriptors and results are \<open>int32_t\<close>.
\<close>

record 'w tty_calls =
  tty_open :: "u8 list \<Rightarrow> 'w \<Rightarrow> u32 \<times> 'w"
  tty_get :: "u32 \<Rightarrow> 'w \<Rightarrow> termios option \<times> 'w"
  tty_set :: "u32 \<Rightarrow> termios \<Rightarrow> 'w \<Rightarrow> bool \<times> 'w"
  tty_flush :: "u32 \<Rightarrow> 'w \<Rightarrow> 'w"
  tty_close :: "u32 \<Rightarrow> 'w \<Rightarrow> 'w"

text \<open>The settings that \<open>serial_set_interface\<close> computes.\<close>

definition interface_settings :: "u32 \<Rightarrow> u32 \<Rightarrow> u32 \<Rightarrow> u32 \<Rightarrow> termios \<Rightarrow> termios" where
  "interface_settings speedFlags parity rtscts nbstop tty =
     (let tty = cfsetospeed tty speedFlags;
          tty = cfsetispeed tty speedFlags;
          tty = cfmakeraw tty;
          tty = tty\<lparr>c_vmin := 0, c_vtime := 5\<rparr>;
          tty = tty\<lparr>c_cflag := (c_cflag tty AND NOT CSIZE) OR CS8\<rparr>;
          tty = tty\<lparr>c_cflag := c_cflag tty OR (CLOCAL OR CREAD)\<rparr>;
          tty = tty\<lparr>c_cflag := c_cflag tty AND NOT (PARENB OR PARODD)\<rparr>;
          tty = tty\<lparr>c_cflag := c_cflag tty OR parity\<rparr>;
          tty = (if sint nbstop \<le> 1 then tty\<lparr>c_cflag := c_cflag tty AND NOT CSTOPB\<rparr>
                 else tty\<lparr>c_cflag := c_cflag tty OR CSTOPB\<rparr>)
      in if rtscts = 0 then tty\<lparr>c_cflag := c_cflag tty AND NOT CRTSCTS\<rparr>
         else tty\<lparr>c_cflag := c_cflag tty OR CRTSCTS\<rparr>)"

definition serial_set_interface ::
  "'w tty_calls \<Rightarrow> u32 \<Rightarrow> u32 \<Rightarrow> u32 \<Rightarrow> u32 \<Rightarrow> u32 \<Rightarrow> 'w \<Rightarrow> u32 \<times> 'w" where
  "serial_set_interface os fd speedFlags parity rtscts nbstop w =
     (case tty_get os fd w of
        (None, w) \<Rightarrow> (-1, w)
      | (Some tty, w) \<Rightarrow>
          (let tty = interface_settings speedFlags parity rtscts nbstop tty;
               w = tty_flush os fd w;
               (ok, w) = tty_set os fd tty w
           in (if ok then 0 else -1, w)))"

definition serial_set_blocking :: "'w tty_calls \<Rightarrow> u32 \<Rightarrow> u32 \<Rightarrow> 'w \<Rightarrow> 'w" where
  "serial_set_blocking os fd should_block w =
     (case tty_get os fd w of
        (None, w) \<Rightarrow> w
      | (Some tty, w) \<Rightarrow>
          (let tty = tty\<lparr>c_vmin := (if should_block \<noteq> 0 then 1 else 0), c_vtime := 5\<rparr>
           in snd (tty_set os fd tty w)))"

definition serial_set_baudrate :: "'w tty_calls \<Rightarrow> u32 \<Rightarrow> u32 \<Rightarrow> 'w \<Rightarrow> u32 \<times> 'w" where
  "serial_set_baudrate os fd baudrate w =
     (let speedFlags = speed_bits (serial_convertBaudRateToFlag baudrate)
      in case tty_get os fd w of
           (None, w) \<Rightarrow> (-1, w)
         | (Some tty, w) \<Rightarrow>
             (let tty = cfsetispeed (cfsetospeed tty speedFlags) speedFlags;
                  (ok, w) = tty_set os fd tty w
              in (if ok then 0 else -1, w)))"

text \<open>The result of \<open>serial_set_interface\<close> is not looked at.\<close>

definition serial_setup ::
  "'w tty_calls \<Rightarrow> u8 list \<Rightarrow> u32 \<Rightarrow> u32 \<Rightarrow> u32 \<Rightarrow> u32 \<Rightarrow> 'w \<Rightarrow> u32 \<times> 'w" where
  "serial_setup os device speed parity rtscts nbstop w =
     (let (fd, w) = tty_open os device w
      in if sint fd \<ge> 0 then
           (let speedFlags = speed_bits (serial_convertBaudRateToFlag speed);
                (r, w) = serial_set_interface os fd speedFlags parity rtscts nbstop w
            in (fd, w))
         else (fd, w))"

definition serial_close :: "'w tty_calls \<Rightarrow> u32 \<Rightarrow> 'w \<Rightarrow> 'w" where
  "serial_close os fd w = tty_close os fd w"

section \<open>The line settings\<close>

lemma interface_other_fields:
  "c_iflag (interface_settings s p r n t) = c_iflag t AND NOT IBAUD0 AND NOT raw_iflag"
  "c_oflag (interface_settings s p r n t) = c_oflag t AND NOT raw_oflag"
  "c_lflag (interface_settings s p r n t) = c_lflag t AND NOT raw_lflag"
  "c_vmin (interface_settings s p r n t) = 0" "c_vtime (interface_settings s p r n t) = 5"
  "c_ispeed (interface_settings s p r n t) = s" "c_ospeed (interface_settings s p r n t) = s"
  by (simp_all add: interface_settings_def Let_def cfmakeraw_def cfsetispeed_def cfsetospeed_def and.assoc)

text \<open>The control flags as one mask and one set of bits.\<close>

definition stop_bits :: "u32 \<Rightarrow> u32" where
  "stop_bits nbstop = (if sint nbstop \<le> 1 then 0 else CSTOPB)"

definition flow_bits :: "u32 \<Rightarrow> u32" where
  "flow_bits rtscts = (if rtscts = 0 then 0 else CRTSCTS)"

definition line_mask :: u32 where
  "line_mask = CBAUD OR CSIZE OR PARENB OR PARODD OR CSTOPB OR CRTSCTS"

text \<open>The fields do not overlap.\<close>

lemma disjoint_bits: "(a :: u32) AND b = 0 \<Longrightarrow> bit a i \<Longrightarrow> \<not> bit b i"
  by (metis bit_0_eq bit_and_iff bot_apply bot_bool_def)

lemma line_fields_disjoint:
  "bit CBAUD i \<Longrightarrow> \<not> bit (CSIZE OR PARENB OR PARODD OR CSTOPB OR CRTSCTS OR CLOCAL OR CREAD) i"
  "bit CSIZE i \<Longrightarrow> \<not> bit (PARENB OR PARODD OR CSTOPB OR CRTSCTS OR CLOCAL OR CREAD) i"
  "bit PARENB i \<Longrightarrow> \<not> bit (PARODD OR CSTOPB OR CRTSCTS OR CLOCAL OR CREAD) i"
  "bit PARODD i \<Longrightarrow> \<not> bit (CSTOPB OR CRTSCTS OR CLOCAL OR CREAD) i"
  "bit CSTOPB i \<Longrightarrow> \<not> bit (CRTSCTS OR CLOCAL OR CREAD) i"
  "bit CRTSCTS i \<Longrightarrow> \<not> bit (CLOCAL OR CREAD) i"
  by (erule disjoint_bits [rotated], simp add: termios_bits)+

lemma CS8_CSIZE: "CS8 = CSIZE"
  by (simp add: termios_bits)

lemma interface_cflag:
  assumes "s AND CBAUD = s"
  shows "c_cflag (interface_settings s p r n t) =
    (c_cflag t AND NOT line_mask) OR s OR CSIZE OR CLOCAL OR CREAD OR (p AND NOT (CSTOPB OR CRTSCTS)) OR
      stop_bits n OR flow_bits r"
proof (rule bit_word_eqI)
  fix i assume "i < LENGTH(32)"
  have "bit s i \<Longrightarrow> bit CBAUD i" using assms by (metis bit_and_iff)
  with line_fields_disjoint [of i] show "bit (c_cflag (interface_settings s p r n t)) i =
      bit ((c_cflag t AND NOT line_mask) OR s OR CSIZE OR CLOCAL OR CREAD OR (p AND NOT (CSTOPB OR CRTSCTS)) OR
        stop_bits n OR flow_bits r) i"
    using \<open>i < LENGTH(32)\<close>
    by (simp add: interface_settings_def Let_def cfmakeraw_def cfsetispeed_def cfsetospeed_def
        CS8_CSIZE line_mask_def stop_bits_def flow_bits_def bit_simps) argo
qed

lemma speed_CBAUD: "speed_bits f AND CBAUD = speed_bits f"
  by (cases f) (simp_all add: termios_bits)

text \<open>Each field of the control flags.\<close>

lemma interface_fields:
  assumes "s AND CBAUD = s" and x_def: "x = c_cflag (interface_settings s p r n t)"
  shows "x AND CBAUD = s OR (p AND CBAUD)" "x AND CSIZE = CS8" "x AND CSTOPB = stop_bits n"
    "x AND CRTSCTS = flow_bits r" "x AND (CLOCAL OR CREAD) = CLOCAL OR CREAD"
    "x AND (PARENB OR PARODD) = p AND (PARENB OR PARODD)"
    "x AND NOT (line_mask OR CLOCAL OR CREAD OR p) = c_cflag t AND NOT (line_mask OR CLOCAL OR CREAD OR p)"
proof -
  have s: "bit s i \<Longrightarrow> bit CBAUD i" for i using assms(1) by (metis bit_and_iff)
  have x: "x = (c_cflag t AND NOT line_mask) OR s OR CSIZE OR CLOCAL OR CREAD OR (p AND NOT (CSTOPB OR CRTSCTS)) OR
      stop_bits n OR flow_bits r"
    unfolding x_def by (rule interface_cflag [OF assms(1)])
  note bits = x line_mask_def stop_bits_def flow_bits_def CS8_CSIZE bit_simps
  show "x AND CBAUD = s OR (p AND CBAUD)"
  proof (rule bit_word_eqI)
    fix i assume "i < LENGTH(32)"
    then show "bit (x AND CBAUD) i = bit (s OR (p AND CBAUD)) i"
      using s [of i] line_fields_disjoint [of i] by (simp add: bits) argo
  qed
  show "x AND CSIZE = CS8"
    by (rule bit_word_eqI) (use line_fields_disjoint in \<open>auto simp: bits\<close>)
  show "x AND CSTOPB = stop_bits n"
  proof (rule bit_word_eqI)
    fix i assume "i < LENGTH(32)"
    then show "bit (x AND CSTOPB) i = bit (stop_bits n) i"
      using s [of i] line_fields_disjoint [of i] by (simp add: bits) argo
  qed
  show "x AND CRTSCTS = flow_bits r"
  proof (rule bit_word_eqI)
    fix i assume "i < LENGTH(32)"
    then show "bit (x AND CRTSCTS) i = bit (flow_bits r) i"
      using s [of i] line_fields_disjoint [of i] by (simp add: bits) argo
  qed
  show "x AND (CLOCAL OR CREAD) = CLOCAL OR CREAD"
    by (rule bit_word_eqI) (auto simp: bits)
  show "x AND (PARENB OR PARODD) = p AND (PARENB OR PARODD)"
  proof (rule bit_word_eqI)
    fix i assume "i < LENGTH(32)"
    then show "bit (x AND (PARENB OR PARODD)) i = bit (p AND (PARENB OR PARODD)) i"
      using s [of i] line_fields_disjoint [of i] by (simp add: bits) argo
  qed
  show "x AND NOT (line_mask OR CLOCAL OR CREAD OR p) = c_cflag t AND NOT (line_mask OR CLOCAL OR CREAD OR p)"
  proof (rule bit_word_eqI)
    fix i assume "i < LENGTH(32)"
    then show "bit (x AND NOT (line_mask OR CLOCAL OR CREAD OR p)) i =
        bit (c_cflag t AND NOT (line_mask OR CLOCAL OR CREAD OR p)) i"
      using s [of i] line_fields_disjoint [of i] by (simp add: bits) argo
  qed
qed

text \<open>Setting the line a second time changes nothing.\<close>

lemma interface_idempotent:
  assumes "s AND CBAUD = s"
  shows "interface_settings s p r n (interface_settings s p r n t) = interface_settings s p r n t"
proof -
  let ?t = "interface_settings s p r n t"
  have "c_cflag (interface_settings s p r n ?t) = c_cflag ?t"
    unfolding interface_cflag [OF assms] by (rule bit_word_eqI) (auto simp: bit_simps)
  then show ?thesis
    by (intro termios.equality) (simp_all add: interface_other_fields and.assoc)
qed

text \<open>A new baud rate leaves all other settings.\<close>

lemma baudrate_keeps:
  assumes "tty_get os fd w = (Some t, w1)"
  shows "\<exists>t'. serial_set_baudrate os fd b w =
      (if fst (tty_set os fd t' w1) then 0 else -1, snd (tty_set os fd t' w1)) \<and>
    c_cflag t' AND CBAUD = speed_bits (serial_convertBaudRateToFlag b) \<and>
    c_cflag t' AND NOT CBAUD = c_cflag t AND NOT CBAUD \<and> c_oflag t' = c_oflag t \<and> c_lflag t' = c_lflag t \<and>
    c_vmin t' = c_vmin t \<and> c_vtime t' = c_vtime t"
proof -
  let ?s = "speed_bits (serial_convertBaudRateToFlag b)"
  let ?t = "cfsetispeed (cfsetospeed t ?s) ?s"
  have s: "bit ?s i \<Longrightarrow> bit CBAUD i" for i
    using speed_CBAUD [of "serial_convertBaudRateToFlag b"] by (metis bit_and_iff)
  have "c_cflag ?t AND CBAUD = ?s" "c_cflag ?t AND NOT CBAUD = c_cflag t AND NOT CBAUD"
    by (rule bit_word_eqI; use s in \<open>auto simp: cfsetispeed_def cfsetospeed_def bit_simps\<close>)+
  moreover have "serial_set_baudrate os fd b w =
      (if fst (tty_set os fd ?t w1) then 0 else -1, snd (tty_set os fd ?t w1))"
    using assms by (simp add: serial_set_baudrate_def Let_def case_prod_beta)
  ultimately show ?thesis
    by (intro exI [of _ ?t]) (simp add: cfsetispeed_def cfsetospeed_def)
qed

text \<open>The descriptor of \<open>serial_setup\<close>: that of \<open>open\<close>, also if the port cannot be set up.\<close>

lemma serial_setup_fd: "fst (serial_setup os dev b p r n w) = fst (tty_open os dev w)"
  by (simp add: serial_setup_def Let_def case_prod_beta)

lemma serial_setup_terminal:
  assumes "tty_open os dev w = (fd, w1)" and "sint fd \<ge> 0" and "tty_get os fd w1 = (Some t, w2)"
  shows "serial_setup os dev b p r n w = (fd, snd (tty_set os fd
    (interface_settings (speed_bits (serial_convertBaudRateToFlag b)) p r n t) (tty_flush os fd w2)))"
  using assms by (simp add: serial_setup_def serial_set_interface_def Let_def case_prod_beta)

lemma serial_setup_not_a_terminal:
  assumes "tty_open os dev w = (fd, w1)" and "sint fd \<ge> 0" and "tty_get os fd w1 = (None, w2)"
  shows "serial_setup os dev b p r n w = (fd, w2)"
  using assms by (simp add: serial_setup_def serial_set_interface_def Let_def)

text \<open>A terminal that takes every setting, for the witnesses: the world is its attributes.\<close>

definition one_terminal :: "termios tty_calls" where
  "one_terminal = \<lparr>tty_open = \<lambda>dev w. (3, w), tty_get = \<lambda>fd w. (Some w, w), tty_set = \<lambda>fd t w. (True, t),
     tty_flush = \<lambda>fd w. w, tty_close = \<lambda>fd w. w\<rparr>"

definition plain_termios :: termios where
  "plain_termios = \<lparr>c_iflag = 0x500, c_oflag = 5, c_cflag = 0xBF, c_lflag = 0x8A3B, c_vmin = 1, c_vtime = 0,
     c_ispeed = 0xF, c_ospeed = 0xF\<rparr>"

section \<open>Properties\<close>

text \<open>
  C21: The line that \<open>serial_set_interface\<close> sets up, whatever the terminal was set to before: raw
  8-bit input and output without echo, signals, translation or software flow control; the speed
  asked for in both directions; one or two stop bits, hardware flow control and parity as asked
  for; reads that return after half a second without data. All other control flags keep their
  value. The parity argument is taken as flag bits.
\<close>

theorem serial_set_interface_settings:
  assumes "tty_get os fd w = (Some t, w1)" and "p AND NOT (PARENB OR PARODD) = 0"
  shows "\<exists>t'. serial_set_interface os fd (speed_bits f) p r n w =
      (if fst (tty_set os fd t' (tty_flush os fd w1)) then 0 else -1, snd (tty_set os fd t' (tty_flush os fd w1))) \<and>
    c_cflag t' AND CBAUD = speed_bits f \<and> c_ispeed t' = speed_bits f \<and> c_ospeed t' = speed_bits f \<and>
    c_cflag t' AND CSIZE = CS8 \<and> c_cflag t' AND (PARENB OR PARODD) = p \<and>
    c_cflag t' AND CSTOPB = (if sint n \<le> 1 then 0 else CSTOPB) \<and>
    c_cflag t' AND CRTSCTS = (if r = 0 then 0 else CRTSCTS) \<and>
    c_cflag t' AND (CLOCAL OR CREAD) = CLOCAL OR CREAD \<and>
    c_cflag t' AND NOT (line_mask OR CLOCAL OR CREAD) = c_cflag t AND NOT (line_mask OR CLOCAL OR CREAD) \<and>
    c_iflag t' AND raw_iflag = 0 \<and> c_oflag t' AND raw_oflag = 0 \<and> c_lflag t' AND raw_lflag = 0 \<and>
    c_vmin t' = 0 \<and> c_vtime t' = 5"
proof -
  let ?t = "interface_settings (speed_bits f) p r n t"
  note fields = interface_fields [OF speed_CBAUD refl, of f p r n t]
  have p: "p AND (PARENB OR PARODD) = p" "line_mask OR CLOCAL OR CREAD OR p = line_mask OR CLOCAL OR CREAD"
    and pb: "p AND CBAUD = 0"
  proof -
    have b: "bit p i \<Longrightarrow> bit (PARENB OR PARODD) i" for i
      using disjoint_bits [OF assms(2), of i] by (cases "i < 32") (auto simp: bit_simps dest: bit_imp_le_length)
    then show "p AND (PARENB OR PARODD) = p" by (intro bit_word_eqI) (auto simp: bit_simps)
    show "line_mask OR CLOCAL OR CREAD OR p = line_mask OR CLOCAL OR CREAD"
      by (intro bit_word_eqI) (use b in \<open>auto simp: bit_simps line_mask_def\<close>)
    show "p AND CBAUD = 0"
      by (intro bit_word_eqI) (use b line_fields_disjoint in \<open>auto simp: bit_simps\<close>)
  qed
  have "serial_set_interface os fd (speed_bits f) p r n w =
      (if fst (tty_set os fd ?t (tty_flush os fd w1)) then 0 else -1, snd (tty_set os fd ?t (tty_flush os fd w1)))"
    using assms(1) by (simp add: serial_set_interface_def Let_def case_prod_beta)
  moreover have "c_iflag ?t AND raw_iflag = 0" "c_oflag ?t AND raw_oflag = 0" "c_lflag ?t AND raw_lflag = 0"
    unfolding interface_other_fields by (rule bit_word_eqI; simp add: bit_simps)+
  ultimately show ?thesis using fields p pb
    by (intro exI [of _ ?t]) (simp add: interface_other_fields stop_bits_def flow_bits_def)
qed

theorem serial_set_interface_settings_witness:
  "\<exists>t'. serial_set_interface one_terminal 3 (speed_bits B57600) (PARENB OR PARODD) 1 2 plain_termios = (0, t') \<and>
    c_cflag t' AND CBAUD = 0x1001 \<and> c_cflag t' AND CSTOPB = CSTOPB \<and> c_lflag t' AND raw_lflag = 0"
proof -
  have "tty_get one_terminal 3 plain_termios = (Some plain_termios, plain_termios)"
    by (simp add: one_terminal_def)
  moreover have "(PARENB OR PARODD) AND NOT (PARENB OR PARODD) = 0" by (rule word_and_not)
  ultimately obtain t' where
    "serial_set_interface one_terminal 3 (speed_bits B57600) (PARENB OR PARODD) 1 2 plain_termios =
      (if fst (tty_set one_terminal 3 t' (tty_flush one_terminal 3 plain_termios)) then 0 else -1,
       snd (tty_set one_terminal 3 t' (tty_flush one_terminal 3 plain_termios)))"
    "c_cflag t' AND CBAUD = speed_bits B57600" "c_cflag t' AND CSTOPB = (if sint (2 :: u32) \<le> 1 then 0 else CSTOPB)"
    "c_lflag t' AND raw_lflag = 0"
    using serial_set_interface_settings [of one_terminal 3 plain_termios plain_termios plain_termios
        "PARENB OR PARODD" B57600 1 2] by blast
  then show ?thesis by (intro exI [of _ t']) (simp add: one_terminal_def)
qed

text \<open>
  C31: What \<open>SERIAL_PARITY_ON\<close> does. \<open>serial.h\<close> defines it as 1, and \<open>rzsz --parity 1\<close> passes it on; but
  the argument is ORed into the control flags, where bit 0 belongs to the speed and not to the
  parity: at 115200 baud the line is set to the code of 230400 baud (\<open>0x1003\<close>), without parity.
\<close>

theorem parity_on_changes_speed:
  assumes "tty_open os dev w = (fd, w1)" and "sint fd \<ge> 0" and "tty_get os fd w1 = (Some t, w2)"
  shows "\<exists>t'. serial_setup os dev 115200 1 r n w = (fd, snd (tty_set os fd t' (tty_flush os fd w2))) \<and>
    c_cflag t' AND CBAUD = 0x1003 \<and> c_cflag t' AND (PARENB OR PARODD) = 0"
proof -
  have s: "speed_bits (serial_convertBaudRateToFlag 115200) = 0x1002"
    by (simp add: serial_convertBaudRateToFlag_def)
  have "(0x1002 :: u32) AND CBAUD = 0x1002" by (simp add: termios_bits)
  note fields = interface_fields(1,6) [OF this refl, of 1 r n t]
  show ?thesis
    unfolding serial_setup_terminal [OF assms] s
    by (intro exI [of _ "interface_settings 0x1002 1 r n t"] conjI refl; unfold fields)
      (simp_all add: termios_bits)
qed

theorem parity_on_changes_speed_witness:
  "\<exists>t'. serial_setup one_terminal [0x64] 115200 1 0 1 plain_termios = (3, t') \<and> c_cflag t' AND CBAUD = 0x1003"
proof -
  have "tty_open one_terminal [0x64] plain_termios = (3, plain_termios)"
    "tty_get one_terminal 3 plain_termios = (Some plain_termios, plain_termios)"
    by (simp_all add: one_terminal_def)
  moreover have "sint (3 :: u32) \<ge> 0" by (simp add: sint_u32)
  ultimately obtain t' where "serial_setup one_terminal [0x64] 115200 1 0 1 plain_termios =
      (3, snd (tty_set one_terminal 3 t' (tty_flush one_terminal 3 plain_termios)))" "c_cflag t' AND CBAUD = 0x1003"
    using parity_on_changes_speed [of one_terminal "[0x64]" plain_termios 3 plain_termios plain_termios plain_termios 0 1]
    by blast
  then show ?thesis by (intro exI [of _ t']) (simp add: one_terminal_def)
qed

end
