(* ===== verification/Rzsz_Main.thy ===== *)
theory Rzsz_Main
  imports Rzsz Termios Xmodem_Link
begin

text \<open>
  \<open>tools/rzsz.c\<close> as a whole: \<open>main\<close> from the command line to the exit code, with the port, the file
  system and the heap as arguments. \<open>file_transmission\<close> and \<open>file_reception\<close> are the whole of
  \<open>do_file_transmission\<close> and \<open>do_file_reception\<close>, around their cores in \<open>Rzsz\<close>. Of the output only
  the report on a file received by YMODEM is modelled.
\<close>

section \<open>Files\<close>

text \<open>
  What the host says of the file: \<open>st_size\<close>, \<open>st_mtime\<close> and \<open>st_mode\<close> of \<open>stat\<close>, or \<open>None\<close> if it fails; the
  bytes that one \<open>fread\<close> of \<open>st_size\<close> bytes stores, or \<open>None\<close> if the file cannot be opened for reading;
  whether it can be opened for writing. \<open>heap n\<close> is the object that \<open>malloc(n)\<close> returns, or \<open>None\<close>
  for NULL, which ends the program without a defined result.
\<close>

record host_file =
  file_stat :: "(64 word \<times> u32 \<times> u32) option"
  file_read :: "u8 list option"
  file_writable :: bool

definition file_transmission ::
  "options_t \<Rightarrow> host_file \<Rightarrow> (nat \<Rightarrow> u8 list option) \<Rightarrow> 'w modem_context \<Rightarrow> (nat \<times> 'w modem_context) option" where
  "file_transmission o1 f heap c =
     (case file_stat f of
        None \<Rightarrow> Some (1, c)
      | Some (st_size, st_mtime, st_mode) \<Rightarrow>
          (case file_read f of
             None \<Rightarrow> Some (1, c)
           | Some data \<Rightarrow> do {
               datafile \<leftarrow> heap (unat st_size);
               datafile \<leftarrow> mem_put datafile 0 data;
               do_file_transmission o1 datafile st_mtime st_mode c
             }))"

text \<open>The lines printed after a reception by YMODEM; \<open>buf\<close> is what the array \<open>filename\<close> holds at first.\<close>

definition report_line :: "string \<Rightarrow> bool \<times> u32 option \<Rightarrow> (u32 \<Rightarrow> u8 list) \<Rightarrow> string \<Rightarrow> u8 list" where
  "report_line head got print tail =
     (case got of (True, Some v) \<Rightarrow> str head @ print v @ str tail @ newline | _ \<Rightarrow> [])"

definition metadata_report :: "u8 list \<Rightarrow> 'w modem_context \<Rightarrow> u8 list option" where
  "metadata_report buf c = do {
     (ok, dst) \<leftarrow> lmodem_metadata_get_filename c (Some buf) 256;
     name \<leftarrow> (if ok then do {
         s \<leftarrow> dst;
         n \<leftarrow> strlen s;
         Some (str ''reception of file: '' @ [0x27] @ take n s @ [0x27] @ newline)
       } else Some []);
     Some (name @
       report_line ''  size: '' (lmodem_metadata_get_filesize c (Some 0)) (\<lambda>v. [0x27] @ format_d v @ [0x27]) '''' @
       report_line ''  modification time: '' (lmodem_metadata_get_modif_time c (Some 0)) (\<lambda>v. [0x27] @ format_d v @ [0x27]) '''' @
       report_line ''  mode: 0'' (lmodem_metadata_get_permission c (Some 0)) (\<lambda>v. [0x27] @ format_o v @ [0x27]) '''' @
       report_line ''  serial: '' (lmodem_metadata_get_serial c (Some 0)) format_d '''')
   }"

text \<open>
  The exit code, what the file holds afterwards (\<open>None\<close> if it was not opened, and so not touched;
  opening it empties it), the report, and the context.
\<close>

definition file_reception ::
  "options_t \<Rightarrow> host_file \<Rightarrow> u8 list \<Rightarrow> 'w modem_context \<Rightarrow>
    (nat \<times> u8 list option \<times> u8 list \<times> 'w modem_context) option" where
  "file_reception o1 f buf c =
     (if file_writable f then do {
        (code, out, c) \<leftarrow> do_file_reception o1 c;
        report \<leftarrow> (if main_protocol o1 = YMODEM then metadata_report buf c else Some []);
        Some (code, Some out, report, c)
      } else Some (1, None, [], c))"

section \<open>The main function\<close>

text \<open>The static \<open>xmodem_ctx\<close>.\<close>

definition xmodem_ctx :: "'w \<Rightarrow> 'w modem_context" where
  "xmodem_ctx w = memset_context (unset_context w)"

text \<open>
  \<open>os\<close>, \<open>rd\<close> and \<open>wr\<close> are the port, \<open>files\<close> the file system, \<open>buf\<close> the uninitialised array of the
  report. The result is the exit code, the received file, the report and the world.
\<close>

definition rzsz_main ::
  "'w tty_calls \<Rightarrow> (u32 \<Rightarrow> 'w read_call) \<Rightarrow> (u32 \<Rightarrow> 'w write_call) \<Rightarrow> (u8 list \<Rightarrow> host_file) \<Rightarrow>
    (nat \<Rightarrow> u8 list option) \<Rightarrow> u8 list \<Rightarrow> (OPTS \<times> u8 list) list \<Rightarrow> 'w \<Rightarrow>
    (nat \<times> u8 list option \<times> u8 list \<times> 'w) option" where
  "rzsz_main os rd wr files heap buf args w = do {
     r \<leftarrow> parse_options args;
     (case r of
        None \<Rightarrow> Some (1, None, [], w)
      | Some o1 \<Rightarrow> do {
          device \<leftarrow> opt_device o1;
          path \<leftarrow> opt_filename o1;
          let (serial_fd, w) =
            serial_setup os device (opt_speed o1) (opt_parity o1) (opt_ctrl_flow o1) (opt_nb_stop o1) w;
          if sint serial_fd < 0 then Some (1, None, [], w)
          else do {
            xmodem_buffer \<leftarrow> heap (unat (snd (main_opts o1)));
            (case main_setup o1 (rd serial_fd) (wr serial_fd) xmodem_buffer (xmodem_ctx w) of
               None \<Rightarrow> Some (1, None, [], serial_close os serial_fd w)
             | Some c \<Rightarrow> do {
                 (code, out, report, c) \<leftarrow>
                   (if opt_rx o1 \<noteq> 0 then file_reception o1 (files path) buf c else Some (1, None, [], c));
                 (code, c) \<leftarrow>
                   (if opt_tx o1 \<noteq> 0 then file_transmission o1 (files path) heap c else Some (code, c));
                 Some (code, out, report, serial_close os serial_fd (world c))
               })
          }
        })
   }"

section \<open>The set-up of the tool\<close>

lemma main_setup_returns:
  "\<exists>m. main_setup o1 rd wr buf c = Some m \<and> opts m = fst (main_opts o1) \<and>
    withCrc m = (fst (main_opts o1) \<noteq> Lxmodem_128_with_chksum) \<and> protocol m = XMODEM \<and> crc_ok m \<and>
    crc16 m = crc16 (lmodem_init c (fst (main_opts o1))) \<and>
    blk_buffer m = \<lparr>line_buffer = buf, line_current_size = 0, line_max_size = snd (main_opts o1)\<rparr> \<and>
    getchar_cb m = Some (serial_getchar rd) \<and> putchar_cb m = Some (serial_putchar wr) \<and> world m = world c"
proof -
  have fits: "line_buffer_expected_size (fst (main_opts o1)) \<le> snd (main_opts o1)"
    by (simp add: main_opts_def)
  have init: "opts (lmodem_init c op) = op" "protocol (lmodem_init c op) = XMODEM"
    "world (lmodem_init c op) = world c" for op
    by (simp_all add: lmodem_init_def memset_context_def Let_def)
  show ?thesis
    using fits init lmodem_init_crc_ok [of c "fst (main_opts o1)"]
    by (simp add: main_setup_def lmodem_set_line_buffer_def case_prod_beta Let_def crc_ok_def
        lmodem_set_filename_buffer_def lmodem_set_getchar_cb_def lmodem_set_putchar_cb_def)
qed

text \<open>Loading a file of less than 2 GiB into the RAM file.\<close>

lemma load_file:
  assumes "length contents < 2 ^ 31"
  shows "\<exists>b'. lmodem_buffer_set_write_offset
      (lmodem_buffer_init b contents (word_of_nat (length contents))) (word_of_nat (length contents)) = (True, b') \<and>
    ram_wf b' \<and> ram_unread b' = contents \<and> ram_contents b' = contents"
  using assms
  by (simp add: lmodem_buffer_set_write_offset_def lmodem_buffer_init_def ram_defs unat_u32_of_nat)

lemma chunks_size:
  assumes "d = 128 \<or> d = 1024"
  shows "length xs \<le> sum_list (map block_size (chunks d xs))"
proof -
  obtain k where "concat (map pad_block (chunks d xs)) = xs @ replicate k SUB"
    using concat_pad_chunks [OF assms] by blast
  then have "length (concat (map pad_block (chunks d xs))) = length xs + k" by simp
  moreover have "length (pad_block ch) = block_size ch" if "ch \<in> set (chunks d xs)" for ch
    using chunks_set [OF that] assms by (intro length_pad_block) auto
  then have "length (concat (map pad_block (chunks d xs))) = sum_list (map block_size (chunks d xs))"
    by (simp add: length_concat comp_def cong: map_cong)
  ultimately show ?thesis by simp
qed

lemma nonneg_result: "n < 2 ^ 31 \<Longrightarrow> 0 \<le> sint (word_of_nat n :: u32)"
  by (simp add: sint_u32 unat_u32_of_nat)

section \<open>A whole transfer\<close>

text \<open>The block size and the check of a mode.\<close>

definition mode_block :: "lxmodem_opts \<Rightarrow> nat" where
  "mode_block op = (if op = Lxmodem_1k then 1024 else 128)"

lemma mode_cases: "mode_block op = 128 \<or> mode_block op = 1024"
  by (simp add: mode_block_def)

lemma xmodem_mode:
  "protocol c = XMODEM \<Longrightarrow>
    tx_block_mode c = (word_of_nat (mode_block (opts c)), opts c \<noteq> Lxmodem_128_with_chksum)"
  by (cases "opts c") (simp_all add: tx_block_mode_def mode_block_def)

lemma tool_emits:
  assumes o1: "opt_protocol o1 = 0" and op: "fst (main_opts o1) = op"
    and buf: "length buf = unat (snd (main_opts o1))"
    and e: "main_setup o1 wire_read wire_write buf c = Some e"
    and chs: "chs = chunks (mode_block op) contents"
    and small: "sum_list (map block_size chs) < 2 ^ 31"
    and wire: "wire_wf (world c)" "incoming (world c) =
      lxmodem_preambule_char e # replicate (length chs + 1) ACK @ rest"
  shows "\<exists>e'. do_file_transmission o1 contents mtime mode e = Some (0, e') \<and>
    incoming (world e') = rest \<and>
    sent (world e') = sent (world c) @ tx_stream (op \<noteq> Lxmodem_128_with_chksum) (crc16 e) 1 chs"
proof -
  obtain m where m: "main_setup o1 wire_read wire_write buf c = Some m" "opts m = op"
    "protocol m = XMODEM" "line_buffer (blk_buffer m) = buf"
    "getchar_cb m = Some wire_getchar" "putchar_cb m = Some wire_putchar" "world m = world c"
    using main_setup_returns [of o1 wire_read wire_write buf c] op by auto
  then have em: "e = m" using e by simp
  have len: "length contents < 2 ^ 31"
    using chunks_size [OF mode_cases [of op], of contents] small chs by simp
  obtain rf where rf: "lmodem_buffer_set_write_offset (lmodem_buffer_init (ramfile e) contents
      (word_of_nat (length contents))) (word_of_nat (length contents)) = (True, rf)"
    "ram_wf rf" "ram_unread rf = contents"
    using load_file [OF len] by blast
  let ?c = "e\<lparr>ramfile := rf, protocol := XMODEM\<rparr>"
  have mode: "tx_block_mode ?c = (word_of_nat (mode_block op), op \<noteq> Lxmodem_128_with_chksum)"
    using xmodem_mode [of ?c] m em by simp
  have unat: "unat (word_of_nat (mode_block op) :: u32) = mode_block op" by (simp add: mode_block_def)
  have "main_opts o1 = (op, if op = Lxmodem_1k then 1029 else if op = Lxmodem_128_with_crc then 133 else 132)"
    using o1 op by (auto simp: main_opts_def split: if_splits)
  then have "tx_line_need ?c \<le> length buf"
    using buf mode by (cases op) (simp_all add: tx_line_need_def mode_block_def)
  then have ready: "tx_ready ?c" using m em rf(2) by (simp add: tx_ready_def)
  have on: "on_wire ?c" using m em wire by (simp add: on_wire_def)
  have dec: "lxmodem_decode_preambule ?c (lxmodem_preambule_char e)"
    using m em by (cases op) (simp_all add: lxmodem_decode_preambule_def lxmodem_preambule_char_def)
  have c: "chs = chunks (unat (word_of_nat (mode_block op) :: u32)) (ram_unread (ramfile ?c))"
    "incoming (world ?c) = lxmodem_preambule_char e # replicate (length chs + 1) ACK @ rest"
    using chs rf(3) unat wire m em by simp_all
  from emit_wire [OF on ready mode c dec] obtain e' where
    "lxmodem_emit ?c = Some (word_of_nat (sum_list (map block_size chs)), e')"
    "incoming (world e') = rest"
    "sent (world e') = sent (world e) @ tx_stream (op \<noteq> Lxmodem_128_with_chksum) (crc16 e) 1 chs"
    by auto
  then show ?thesis using rf(1) o1 m em nonneg_result [OF small]
    by (simp add: do_file_transmission_def main_protocol_def lmodem_emit_def lmodem_set_file_buffer_def)
qed

lemma tool_receives:
  assumes o1: "opt_protocol o1 = 0" and op: "fst (main_opts o1) = op"
    and buf: "length buf = unat (snd (main_opts o1))"
    and r: "main_setup o1 wire_read wire_write buf c = Some r"
    and chs: "chs = chunks (mode_block op) contents"
    and small: "sum_list (map block_size chs) < 1024 * 1024"
    and wire: "wire_wf (world c)" "incoming (world c) =
      tx_stream (op \<noteq> Lxmodem_128_with_chksum) ctx 1 chs @ rest"
    and crc: "crc16_ready LXMODEM_CRC16_CCITT_POLYNOME ctx"
  shows "\<exists>r' k. do_file_reception o1 r = Some (0, contents @ replicate k SUB, r') \<and> k < 1024 \<and>
    incoming (world r') = rest \<and>
    sent (world r') = sent (world c) @ lxmodem_preambule_char r # replicate (length chs + 1) ACK"
proof -
  obtain m where m: "main_setup o1 wire_read wire_write buf c = Some m" "opts m = op" "crc_ok m"
    "withCrc m = (op \<noteq> Lxmodem_128_with_chksum)"
    "protocol m = XMODEM" "line_buffer (blk_buffer m) = buf"
    "getchar_cb m = Some wire_getchar" "putchar_cb m = Some wire_putchar" "world m = world c"
    using main_setup_returns [of o1 wire_read wire_write buf c] op by auto
  then have rm: "r = m" using r by simp
  define rf where "rf = lmodem_buffer_init (ramfile r) (replicate (unat BUFFER_FILE_SIZE) 0) BUFFER_FILE_SIZE"
  have rf: "ram_wf rf" "ram_contents rf = []" "ram_room rf = 1024 * 1024"
    unfolding rf_def by (rule ram_wf_init) (simp_all add: BUFFER_FILE_SIZE_def)
  let ?c = "r\<lparr>ramfile := rf, protocol := XMODEM\<rparr>"
  have "main_opts o1 = (op, if op = Lxmodem_1k then 1029 else if op = Lxmodem_128_with_crc then 133 else 132)"
    using o1 op by (auto simp: main_opts_def split: if_splits)
  then have "rx_line_need ?c \<le> length buf"
    using buf m rm by (cases op) (simp_all add: rx_line_need_def)
  then have ready: "rx_ready ?c" using m rm rf(1) by (simp add: rx_ready_def)
  have on: "on_wire ?c" using m rm wire by (simp add: on_wire_def)
  have tab: "crctab ctx = crctab (crc16 r)"
    using crc m(3) rm by (simp add: crc_ok_def crc16_ready_def)
      (simp add: crc16_init_def)
  then have acc: "rx_accepts ?c (op \<noteq> Lxmodem_128_with_chksum) ctx (mode_block op)"
    using m rm block_trailer_table [OF tab] by (cases op) (simp_all add: rx_accepts_def mode_block_def)
  have set: "\<forall>ch \<in> set chs. length ch \<le> mode_block op" using chs chunks_set by blast
  have room: "sum_list (map block_size chs) < ram_room (ramfile ?c)" using small rf(3) by simp
  have inc: "incoming (world ?c) = tx_stream (op \<noteq> Lxmodem_128_with_chksum) ctx 1 chs @ rest"
    using wire m rm by simp
  from receive_wire [OF on ready acc set room inc] obtain r' where
    run: "lxmodem_receive ?c = Some (word_of_nat (sum_list (map block_size chs)), r')"
    and r': "ram_contents (ramfile r') = concat (map pad_block chs)" "incoming (world r') = rest"
    "sent (world r') = sent (world r) @ lxmodem_preambule_char ?c # replicate (length chs + 1) ACK"
    using rf(2) by auto
  have "ram_wf (ramfile r')"
    using tty.receive_returns [of ?c wire_read] ready m rm run by auto
  then have out: "mem_get (ram_buffer (ramfile r')) 0 (unat (ram_write_offset (ramfile r'))) =
      Some (concat (map pad_block chs))"
    using r'(1) by (simp add: mem_get_def ram_wf_def ram_contents_def)
  have "sum_list (map block_size chs) < 2 ^ 31" using small by simp
  then have code: "do_file_reception o1 r = Some (0, concat (map pad_block chs), r')"
    using run out o1 nonneg_result
    by (simp add: do_file_reception_def main_protocol_def lmodem_receive_def lmodem_set_file_buffer_def
        rf_def [symmetric])
  have pre: "lxmodem_preambule_char ?c = lxmodem_preambule_char r" "sent (world r) = sent (world c)"
    using m rm by (simp_all add: lxmodem_preambule_char_def)
  obtain k where k: "k < 1024" "concat (map pad_block chs) = contents @ replicate k SUB"
    using concat_pad_chunks [OF mode_cases] chs by blast
  show ?thesis
    using code r'(2,3) k unfolding pre by (intro exI [of _ r'] exI [of _ k]) (simp only: simp_thms)
qed

text \<open>The context that \<open>main\<close> sets up is ready for both directions.\<close>

lemma main_setup_ready:
  assumes "length buf = unat (snd (main_opts o1))" and "ram_wf rf"
  shows "\<exists>m. main_setup o1 rd wr buf c = Some m \<and>
    rx_ready (m\<lparr>ramfile := rf, protocol := main_protocol o1\<rparr>) \<and>
    tx_ready (m\<lparr>ramfile := rf, protocol := main_protocol o1\<rparr>)"
proof -
  obtain m where m: "main_setup o1 rd wr buf c = Some m" "opts m = fst (main_opts o1)"
    "withCrc m = (fst (main_opts o1) \<noteq> Lxmodem_128_with_chksum)"
    "blk_buffer m = \<lparr>line_buffer = buf, line_current_size = 0, line_max_size = snd (main_opts o1)\<rparr>"
    "putchar_cb m = Some (serial_putchar wr)"
    using main_setup_returns [of o1 rd wr buf c] by blast
  show ?thesis
    using m assms
    by (intro exI [of _ m])
      (auto simp: rx_ready_def rx_line_need_def tx_ready_def tx_line_need_def tx_block_mode_def main_opts_def
        main_protocol_def split: if_splits)
qed

text \<open>A reception by XMODEM on any port.\<close>

lemma tool_reception_ends:
  assumes "opt_protocol o1 = 0" and "length buf = unat (snd (main_opts o1))"
    and "main_setup o1 rd wr buf c = Some m"
  shows "\<exists>code out c'. do_file_reception o1 m = Some (code, out, c') \<and>
    (code = 0 \<and> (\<exists>blocks. out = concat blocks \<and> (\<forall>b \<in> set blocks. length b = 128 \<or> length b = 1024)) \<or>
     code = 1 \<and> out = [])"
proof -
  define rf where "rf = lmodem_buffer_init (ramfile m) (replicate (unat BUFFER_FILE_SIZE) 0) BUFFER_FILE_SIZE"
  have rf: "ram_wf rf" "ram_contents rf = []"
    unfolding rf_def by (rule ram_wf_init) (simp_all add: BUFFER_FILE_SIZE_def)
  let ?c = "m\<lparr>ramfile := rf, protocol := XMODEM\<rparr>"
  have ready: "rx_ready ?c" "getchar_cb ?c = Some (serial_getchar rd)"
    using main_setup_ready [OF assms(2) rf(1), of rd wr c] main_setup_returns [of o1 rd wr buf c] assms(1,3)
    by (auto simp: main_protocol_def)
  from tty.receive_returns [OF ready(2,1)] obtain r c' a where
    run: "lxmodem_receive ?c = Some (r, c')" and wf: "ram_wf (ramfile c')" and a: "rx_spec_reachable a"
    and out: "ram_contents (ramfile c') = concat (accepted a)"
    using rf(2) by auto
  have blocks: "\<forall>b \<in> set (accepted a). length b = 128 \<or> length b = 1024"
    using rx_spec_invariant [OF a] by blast
  have get: "mem_get (ram_buffer (ramfile c')) 0 (unat (ram_write_offset (ramfile c'))) = Some (concat (accepted a))"
    using wf out by (simp add: mem_get_def ram_wf_def ram_contents_def)
  have "do_file_reception o1 m = (if 0 \<le> sint r then Some (0, concat (accepted a), c') else Some (1, [], c'))"
    using run get assms(1)
    by (simp add: do_file_reception_def main_protocol_def lmodem_receive_def lmodem_set_file_buffer_def
        rf_def [symmetric])
  then show ?thesis using blocks by (cases "0 \<le> sint r") auto
qed

text \<open>An emission by XMODEM on any port.\<close>

lemma tool_emission_ends:
  assumes "opt_protocol o1 = 0" and "length buf = unat (snd (main_opts o1))"
    and "main_setup o1 rd wr buf c = Some m" and "length contents < 2 ^ 31"
  shows "\<exists>code c'. do_file_transmission o1 contents mtime mode m = Some (code, c') \<and> (code = 0 \<or> code = 1)"
proof -
  obtain rf where rf: "lmodem_buffer_set_write_offset (lmodem_buffer_init (ramfile m) contents
      (word_of_nat (length contents))) (word_of_nat (length contents)) = (True, rf)" "ram_wf rf"
    using load_file [OF assms(4)] by blast
  let ?c = "m\<lparr>ramfile := rf, protocol := XMODEM\<rparr>"
  have ready: "tx_ready ?c" "getchar_cb ?c = Some (serial_getchar rd)"
    using main_setup_ready [OF assms(2) rf(2), of rd wr c] main_setup_returns [of o1 rd wr buf c] assms(1,3)
    by (auto simp: main_protocol_def)
  from tty.emit_returns [OF ready(2,1) refl] obtain n c' where "lxmodem_emit ?c = Some (n, c')" by blast
  then show ?thesis using assms(1) rf(1)
    by (simp add: do_file_transmission_def main_protocol_def lmodem_emit_def lmodem_set_file_buffer_def)
qed

text \<open>One file from one tool to the other, each set up by \<open>main\<close>.\<close>

lemma rzsz_xmodem_transfer:
  assumes "opt_protocol ot = 0" and "opt_protocol orx = 0"
    and "fst (main_opts ot) = op" and "fst (main_opts orx) = op"
    and "main_setup ot wire_read wire_write bt ct = Some e" and "length bt = unat (snd (main_opts ot))"
    and "main_setup orx wire_read wire_write br cr = Some r" and "length br = unat (snd (main_opts orx))"
    and "chs = chunks (mode_block op) contents"
    and "sum_list (map block_size chs) < 1024 * 1024"
    and "wire_wf (world ct)" and "sent (world ct) = []"
    and "incoming (world ct) = lxmodem_preambule_char r # replicate (length chs + 1) ACK"
    and "wire_wf (world cr)" and "sent (world cr) = []"
    and "incoming (world cr) = tx_stream (op \<noteq> Lxmodem_128_with_chksum) (crc16 e) 1 chs"
  shows "\<exists>e' r' k. do_file_transmission ot contents mtime mode e = Some (0, e') \<and>
    do_file_reception orx r = Some (0, contents @ replicate k SUB, r') \<and> k < 1024 \<and>
    sent (world e') = incoming (world cr) \<and> sent (world r') = incoming (world ct) \<and>
    incoming (world e') = [] \<and> incoming (world r') = []"
proof -
  have "lxmodem_preambule_char e = lxmodem_preambule_char r" "crc_ok e"
    using main_setup_returns [of ot wire_read wire_write bt ct]
      main_setup_returns [of orx wire_read wire_write br cr] assms(3-5,7)
    by (auto simp: lxmodem_preambule_char_def)
  then have inc: "incoming (world ct) = lxmodem_preambule_char e # replicate (length chs + 1) ACK @ []"
    "incoming (world cr) = tx_stream (op \<noteq> Lxmodem_128_with_chksum) (crc16 e) 1 chs @ []"
    and crc: "crc16_ready LXMODEM_CRC16_CCITT_POLYNOME (crc16 e)"
    using assms(13,16) by (simp_all add: crc_ok_def)
  have small: "sum_list (map block_size chs) < 2 ^ 31" using assms(10) by simp
  obtain e' where e': "do_file_transmission ot contents mtime mode e = Some (0, e')"
    "incoming (world e') = []" "sent (world e') = incoming (world cr)"
    using tool_emits [OF assms(1,3,6,5,9) small assms(11) inc(1)] assms(12,16) by auto
  obtain r' k where "do_file_reception orx r = Some (0, contents @ replicate k SUB, r')" "k < 1024"
    "incoming (world r') = []" "sent (world r') = incoming (world ct)"
    using tool_receives [OF assms(2,4,8,7,9,10,14) inc(2) crc] assms(13,15) by auto
  with e' show ?thesis by blast
qed

section \<open>Runs of the main function\<close>

definition heap_ok :: "(nat \<Rightarrow> u8 list option) \<Rightarrow> bool" where
  "heap_ok heap \<longleftrightarrow> (\<forall>n. \<exists>b. heap n = Some b \<and> length b = n)"

text \<open>\<open>fread\<close> stores no more than it was asked for, and the file has less than 2 GiB.\<close>

definition host_ok :: "host_file \<Rightarrow> bool" where
  "host_ok f \<longleftrightarrow> (case (file_stat f, file_read f) of
     (Some (sz, _, _), Some data) \<Rightarrow> length data \<le> unat sz \<and> unat sz < 2 ^ 31 | _ \<Rightarrow> True)"

lemma main_runs:
  assumes "parse_options args = Some (Some o1)" and "opt_device o1 = Some dev" and "opt_filename o1 = Some path"
    and "serial_setup os dev (opt_speed o1) (opt_parity o1) (opt_ctrl_flow o1) (opt_nb_stop o1) w = (fd, w1)"
    and "sint fd \<ge> 0" and "heap (unat (snd (main_opts o1))) = Some mem"
    and "main_setup o1 (rd fd) (wr fd) mem (xmodem_ctx w1) = Some m"
  shows "rzsz_main os rd wr files heap buf args w = do {
    (code, out, report, c) \<leftarrow>
      (if opt_rx o1 \<noteq> 0 then file_reception o1 (files path) buf m else Some (1, None, [], m));
    (code, c) \<leftarrow> (if opt_tx o1 \<noteq> 0 then file_transmission o1 (files path) heap c else Some (code, c));
    Some (code, out, report, serial_close os fd (world c)) }"
  using assms by (simp add: rzsz_main_def)

text \<open>The transfer with the files around it.\<close>

lemma rzsz_files_transfer:
  assumes xfer: "opt_protocol ot = 0" "opt_protocol orx = 0" "fst (main_opts ot) = op" "fst (main_opts orx) = op"
      "main_setup ot wire_read wire_write bt ct = Some e" "length bt = unat (snd (main_opts ot))"
      "main_setup orx wire_read wire_write br cr = Some r" "length br = unat (snd (main_opts orx))"
      "chs = chunks (mode_block op) contents" "sum_list (map block_size chs) < 1024 * 1024"
      "wire_wf (world ct)" "sent (world ct) = []"
      "incoming (world ct) = lxmodem_preambule_char r # replicate (length chs + 1) ACK"
      "wire_wf (world cr)" "sent (world cr) = []"
      "incoming (world cr) = tx_stream (op \<noteq> Lxmodem_128_with_chksum) (crc16 e) 1 chs"
    and host: "heap_ok heap" "file_stat ft = Some (word_of_nat (length contents), mtime, mode)"
      "file_read ft = Some contents" "file_writable fr"
  shows "\<exists>e' r' k. file_transmission ot ft heap e = Some (0, e') \<and>
    file_reception orx fr buf r = Some (0, Some (contents @ replicate k SUB), [], r') \<and> k < 1024 \<and>
    sent (world e') = incoming (world cr) \<and> sent (world r') = incoming (world ct) \<and>
    incoming (world e') = [] \<and> incoming (world r') = []"
proof -
  obtain e' r' k where run: "do_file_transmission ot contents mtime mode e = Some (0, e')"
    "do_file_reception orx r = Some (0, contents @ replicate k SUB, r')" "k < 1024"
    and io: "sent (world e') = incoming (world cr)" "sent (world r') = incoming (world ct)"
      "incoming (world e') = []" "incoming (world r') = []"
    using rzsz_xmodem_transfer [OF xfer, of mtime mode] by blast
  have "length contents < 2 ^ 31"
    using chunks_size [OF mode_cases [of op], of contents] xfer(9,10) by simp
  then have len: "unat (word_of_nat (length contents) :: 64 word) = length contents"
    by (simp add: unat_of_nat)
  obtain mf where mf: "heap (length contents) = Some mf" "length mf = length contents"
    using host(1) by (auto simp: heap_ok_def)
  have tx: "file_transmission ot ft heap e = Some (0, e')"
    using run(1) host(2,3) mf len by (simp add: file_transmission_def mem_put_def)
  have "file_reception orx fr buf r = Some (0, Some (contents @ replicate k SUB), [], r')"
    using run(2) xfer(2) host(4) by (simp add: file_reception_def main_protocol_def)
  with tx run(3) io show ?thesis by blast
qed

lemma file_transmission_ends:
  assumes "opt_protocol o1 = 0" and "length buf = unat (snd (main_opts o1))"
    and "main_setup o1 rd wr buf c = Some m" and "heap_ok heap" and "host_ok f"
  shows "\<exists>code c'. file_transmission o1 f heap m = Some (code, c') \<and> (code = 0 \<or> code = 1)"
proof (cases "\<exists>sz mt md data. file_stat f = Some (sz, mt, md) \<and> file_read f = Some data")
  case True
  then obtain sz mt md data where f: "file_stat f = Some (sz, mt, md)" "file_read f = Some data" by blast
  obtain mem where mem: "heap (unat sz) = Some mem" "length mem = unat sz"
    using assms(4) by (auto simp: heap_ok_def)
  have small: "length data \<le> length mem" "length mem < 2 ^ 31"
    using assms(5) f mem(2) by (simp_all add: host_ok_def)
  let ?data = "data @ drop (length data) mem"
  have "mem_put mem 0 data = Some ?data" using small(1) by (simp add: mem_put_def)
  moreover have "length ?data < 2 ^ 31" using small by simp
  ultimately show ?thesis
    using tool_emission_ends [OF assms(1-3), of ?data mt md] f mem by (simp add: file_transmission_def)
next
  case False
  then show ?thesis by (auto simp: file_transmission_def split: option.splits prod.splits)
qed

lemma file_reception_ends:
  assumes "opt_protocol o1 = 0" and "length mem = unat (snd (main_opts o1))"
    and "main_setup o1 rd wr mem c = Some m"
  shows "\<exists>code out c'. file_reception o1 f buf m = Some (code, out, [], c') \<and>
    (if \<not> file_writable f then code = 1 \<and> out = None
     else code = 0 \<and> (\<exists>blocks. out = Some (concat blocks) \<and> (\<forall>b \<in> set blocks. length b = 128 \<or> length b = 1024)) \<or>
       code = 1 \<and> out = Some [])"
proof -
  have "main_protocol o1 \<noteq> YMODEM" using assms(1) by (simp add: main_protocol_def)
  then show ?thesis
    using tool_reception_ends [OF assms] by (cases "file_writable f") (auto simp: file_reception_def)
qed

end
