(* ===== verification/Dbg_serial.thy ===== *)
theory Dbg_serial
  imports Termios Xmodem_Link
begin

text \<open>
  \<open>tools/dbg_serial.c\<close> with \<open>tools/asciitable.h\<close>: the debug command that asks for an XMODEM transfer
  with CRC, prints what arrives and acknowledges every block. Its output is the list of the bytes
  written to \<open>stdout\<close>; \<open>stderr\<close> is left out. Whether \<open>char\<close> is signed is an argument, as it differs
  between the hosts the build files name (signed on x86, unsigned on ARM).
\<close>

section \<open>Printing\<close>

text \<open>The digits \<open>%x\<close> prints, and \<open>%.2x\<close>: at least two of them.\<close>

definition hex_char :: "nat \<Rightarrow> u8" where
  "hex_char d = word_of_nat (if d < 10 then 48 + d else 87 + d)"

fun hex_digits :: "nat \<Rightarrow> u8 list" where
  "hex_digits n = (if n < 16 then [hex_char n] else hex_digits (n div 16) @ [hex_char (n mod 16)])"

declare hex_digits.simps [simp del]

definition format_x2 :: "u8 \<Rightarrow> u8 list" where
  "format_x2 x = (let s = hex_digits (unat x) in replicate (2 - length s) 48 @ s)"

section \<open>Control codes\<close>

definition char_value :: "bool \<Rightarrow> u8 \<Rightarrow> int" where
  "char_value char_signed c = (if char_signed then sint c else uint c)"

text \<open>The names and values of \<open>asciitable.h\<close>, in its order.\<close>

definition asciitable :: "(string \<times> int) list" where
  "asciitable =
     [(''NUL'', 0), (''SOH'', 1), (''STX'', 2), (''ETX'', 3), (''EOT'', 4), (''ENQ'', 5), (''ACK'', 6), (''BEL'', 7),
      (''BS'', 8), (''TAB'', 9), (''LF'', 10), (''VT'', 11), (''FF'', 12), (''CR'', 13), (''SO'', 14), (''SI'', 15),
      (''DLE'', 16), (''DC1'', 17), (''DC2'', 18), (''DC3'', 19), (''DC4'', 20), (''NAK'', 21), (''SYN'', 22), (''ETB'', 23),
      (''CAN'', 24), (''EM'', 25), (''SUB'', 26), (''ESC'', 27), (''FS'', 28), (''GS'', 29), (''RS'', 30), (''US'', 31),
      (''DEL'', 177)]"

definition FIRST_PRINTABLE :: int where
  "FIRST_PRINTABLE = 32"

definition LAST_PRINTABLE :: int where
  "LAST_PRINTABLE = 177"

definition isCtrlCode :: "bool \<Rightarrow> u8 \<Rightarrow> bool" where
  "isCtrlCode char_signed c \<longleftrightarrow> char_value char_signed c \<ge> 0 \<and> char_value char_signed c < FIRST_PRINTABLE"

definition controlCode :: "string list" where
  "controlCode =
     [''NUL'', ''SOH'', ''STX'', ''ETX'', ''EOT'', ''ENQ'', ''ACK'', ''BEL'', ''BS'', ''TAB'', ''LF'', ''VT'', ''FF'', ''CR'',
      ''SO'', ''SI'', ''DLE'', ''DC1'', ''DC2'', ''DC3'', ''DC4'', ''NAK'', ''SYN'', ''ETB'', ''CAN'', ''EM'', ''SUB'', ''ESC'',
      ''FS'', ''GS'', ''RS'', ''US'']"

text \<open>\<open>controlCode[(int) c]\<close> is \<open>None\<close> outside the array.\<close>

definition getCtrlCode :: "bool \<Rightarrow> u8 \<Rightarrow> string option" where
  "getCtrlCode char_signed c =
     (if isCtrlCode char_signed c then
        (let i = char_value char_signed c
         in if 0 \<le> i \<and> i < int (length controlCode) then Some (controlCode ! nat i) else None)
      else Some '''')"

section \<open>The loop\<close>

text \<open>\<open>for (i = 0; i < size; i++) t += buffer[i];\<close>\<close>

fun calcul_chksum_loop :: "u8 list \<Rightarrow> nat \<Rightarrow> nat \<Rightarrow> u8 \<Rightarrow> u8 option" where
  "calcul_chksum_loop buffer i 0 t = Some t"
| "calcul_chksum_loop buffer i (Suc n) t = do {
     x \<leftarrow> mem_read buffer i;
     calcul_chksum_loop buffer (Suc i) n (t + x)
   }"

definition calcul_chksum :: "u8 list \<Rightarrow> u32 \<Rightarrow> u8 option" where
  "calcul_chksum buffer sz = calcul_chksum_loop buffer 0 (unat sz) 0"

record dbg_locals =
  isDone :: bool
  frame_buffer :: "u8 list"
  stdout :: "u8 list"

text \<open>One round of \<open>while (isDone == false)\<close>.\<close>

definition dbg_step ::
  "bool \<Rightarrow> 'w read_call \<Rightarrow> 'w write_call \<Rightarrow> dbg_locals \<Rightarrow> 'w \<Rightarrow> (dbg_locals \<times> 'w) option" where
  "dbg_step char_signed rd wr l w = do {
     let ((isReceived, got), w) = serial_read rd w 1;
     if isReceived then do {
       x \<leftarrow> mem_read got 0;
       if x = SOH then do {
         let l = l\<lparr>stdout := stdout l @ str ''SOH: ''\<rparr>;
         let ((isReceived, got), w) = serial_read rd w (131 + 1);
         buffer \<leftarrow> mem_put (frame_buffer l) 0 got;
         let l = l\<lparr>frame_buffer := buffer\<rparr>;
         if isReceived then do {
           let l = l\<lparr>stdout := stdout l @
             concat (map (\<lambda>b. str ''0x'' @ format_x2 b @ str ''-'') (take (131 + 1) buffer)) @ newline\<rparr>;
           chksum \<leftarrow> calcul_chksum (drop 2 buffer) (128 + 1);
           let l = l\<lparr>stdout := stdout l @ str ''chksum = 0x'' @ format_x2 chksum @ newline\<rparr>;
           let (_, w) = serial_send_char wr w ACK;
           Some (l, w)
         } else Some (l, w)
       } else if x = EOT then do {
         let (_, w) = serial_send_char wr w ACK;
         Some (l\<lparr>stdout := stdout l @ str ''EOT: '' @ newline, isDone := True\<rparr>, w)
       } else do {
         let l = l\<lparr>stdout := stdout l @ str ''>'' @ [x] @ str '' (0x'' @
           hex_digits (unat (word_of_int (char_value char_signed x) :: u32)) @ str '')''\<rparr>;
         name \<leftarrow> (if isCtrlCode char_signed x then getCtrlCode char_signed x else Some '''');
         Some (l\<lparr>stdout := stdout l @ str name @ newline\<rparr>, w)
       }
     } else Some (l, w)
   }"

partial_function (option) dbg_loop ::
  "bool \<Rightarrow> 'w read_call \<Rightarrow> 'w write_call \<Rightarrow> dbg_locals \<Rightarrow> 'w \<Rightarrow> (dbg_locals \<times> 'w) option" where
  "dbg_loop char_signed rd wr l w =
     (if isDone l then Some (l, w)
      else do {
        (l, w) \<leftarrow> dbg_step char_signed rd wr l w;
        dbg_loop char_signed rd wr l w
      })"

text \<open>\<open>main\<close>: the exit code, the output, and the world; \<open>garbage\<close> is what the array holds at first.\<close>

definition dbg_main ::
  "bool \<Rightarrow> 'w tty_calls \<Rightarrow> 'w read_call \<Rightarrow> 'w write_call \<Rightarrow> u8 list \<Rightarrow> 'w \<Rightarrow> (nat \<times> u8 list \<times> 'w) option" where
  "dbg_main char_signed os rd wr garbage w = do {
     let (fd, w) = serial_setup os (str ''/dev/ttyUSB0'') 115200 0 0 1 w;
     if sint fd < 0 then Some (1, [], w)
     else do {
       let l = \<lparr>isDone = False, frame_buffer = garbage, stdout = []\<rparr>;
       let (_, w) = serial_send_char wr w char_C;
       (l, w) \<leftarrow> dbg_loop char_signed rd wr l w;
       Some (0, stdout l, serial_close os fd w)
     }
   }"

section \<open>Control codes and the checksum\<close>

lemma char_value_cases: "char_value True c = (if unat c < 128 then int (unat c) else int (unat c) - 256)"
  "char_value False c = int (unat c)"
proof -
  have "sint c = (uint c + 2 ^ 7) mod 2 ^ 8 - 2 ^ 7"
    using int_word_sint [of "uint c", where 'a = 8] by simp
  also have "\<dots> = (if unat c < 128 then int (unat c) else int (unat c) - 256)"
  proof (cases "unat c < 128")
    case False
    then have "(int (unat c) + 2 ^ 7) mod 2 ^ 8 = int (unat c) + 2 ^ 7 - 2 ^ 8"
      using unat_u8_less [of c] by (subst mod_pos_geq) (simp_all add: mod_pos_pos_trivial)
    with False show ?thesis by (simp add: uint_nat)
  qed (simp add: mod_pos_pos_trivial uint_nat)
  finally show "char_value True c = (if unat c < 128 then int (unat c) else int (unat c) - 256)"
    by (simp add: char_value_def)
qed (simp add: char_value_def uint_nat)

lemma isCtrlCode_iff: "isCtrlCode char_signed c \<longleftrightarrow> unat c < 32"
  using unat_u8_less [of c]
  by (cases char_signed) (auto simp: isCtrlCode_def char_value_cases FIRST_PRINTABLE_def)

lemma getCtrlCode_returns:
  "getCtrlCode char_signed c = Some (if unat c < 32 then controlCode ! unat c else '''')"
proof -
  have "unat c < 32 \<Longrightarrow> char_value char_signed c = int (unat c)"
    by (cases char_signed) (simp_all add: char_value_cases)
  moreover have "length controlCode = 32" by (simp add: controlCode_def)
  ultimately show ?thesis by (simp add: getCtrlCode_def isCtrlCode_iff Let_def)
qed

lemma chksum_loop:
  "i + n \<le> length buffer \<Longrightarrow> calcul_chksum_loop buffer i n t = Some (foldl (+) t (take n (drop i buffer)))"
proof (induction n arbitrary: i t)
  case (Suc n)
  then have "take (Suc n) (drop i buffer) = buffer ! i # take n (drop (Suc i) buffer)"
    by (simp add: take_Suc_conv_app_nth Cons_nth_drop_Suc [symmetric])
  with Suc show ?case by (simp add: mem_read_Some)
qed simp

text \<open>The debug command sums like the library does.\<close>

lemma calcul_chksum_lib:
  "unat sz \<le> length buffer \<Longrightarrow>
    calcul_chksum buffer sz = Some (lxmodem_calcul_chksum (take (unat sz) buffer))"
  by (simp add: calcul_chksum_def chksum_loop lxmodem_calcul_chksum_def)

section \<open>A transmission\<close>

text \<open>What is printed for a block: the bytes behind the SOH, and the sum of 129 of them.\<close>

definition block_report :: "u8 list \<Rightarrow> u8 list" where
  "block_report f = str ''SOH: '' @ concat (map (\<lambda>b. str ''0x'' @ format_x2 b @ str ''-'') f) @ newline @
     str ''chksum = 0x'' @ format_x2 (lxmodem_calcul_chksum (take 129 (drop 2 f))) @ newline"

lemma dbg_block_round:
  assumes wf: "wire_wf w" and inc: "incoming w = SOH # f @ rest" and f: "length f = 132"
    and buf: "length (frame_buffer l) = 132"
  shows "\<exists>w'. dbg_step char_signed wire_read wire_write l w =
      Some (l\<lparr>frame_buffer := f, stdout := stdout l @ block_report f\<rparr>, w') \<and>
    incoming w' = rest \<and> sent w' = sent w @ [ACK] \<and> wire_wf w'"
proof -
  obtain w1 where r1: "serial_read wire_read w 1 = ((True, [SOH]), w1)"
    and w1: "incoming w1 = f @ rest" "sent w1 = sent w" "wire_wf w1"
    using wire_serial_read [OF wf, of "[SOH]" "f @ rest" 1] inc by auto
  obtain w2 where r2: "serial_read wire_read w1 132 = ((True, f), w2)"
    and w2: "incoming w2 = rest" "sent w2 = sent w1" "wire_wf w2"
    using wire_serial_read [OF w1(3,1), of 132] f by auto
  have put: "mem_put (frame_buffer l) 0 f = Some f" using f buf by (simp add: mem_put_def)
  have sum: "calcul_chksum (drop 2 f) (128 + 1) = Some (lxmodem_calcul_chksum (take 129 (drop 2 f)))"
    using calcul_chksum_lib [of "128 + 1" "drop 2 f"] f by simp
  have "dbg_step char_signed wire_read wire_write l w =
      Some (l\<lparr>frame_buffer := f, stdout := stdout l @ block_report f\<rparr>, w2\<lparr>sent := sent w2 @ [ACK]\<rparr>)"
    using r1 r2 put sum f
    by (simp add: dbg_step_def mem_read_def serial_send_char_def serial_write_def wire_write_def block_report_def)
  with w1 w2 show ?thesis by (intro exI [of _ "w2\<lparr>sent := sent w2 @ [ACK]\<rparr>"]) simp
qed

lemma dbg_eot_round:
  assumes wf: "wire_wf w" and inc: "incoming w = EOT # rest"
  shows "\<exists>w'. dbg_step char_signed wire_read wire_write l w =
      Some (l\<lparr>stdout := stdout l @ str ''EOT: '' @ newline, isDone := True\<rparr>, w') \<and>
    incoming w' = rest \<and> sent w' = sent w @ [ACK] \<and> wire_wf w'"
proof -
  obtain w1 where r1: "serial_read wire_read w 1 = ((True, [EOT]), w1)"
    and w1: "incoming w1 = rest" "sent w1 = sent w" "wire_wf w1"
    using wire_serial_read [OF wf, of "[EOT]" rest 1] inc by auto
  then show ?thesis
    by (intro exI [of _ "w1\<lparr>sent := sent w1 @ [ACK]\<rparr>"])
      (simp add: dbg_step_def mem_read_def serial_send_char_def serial_write_def wire_write_def)
qed

lemma dbg_loop_blocks:
  "wire_wf w \<Longrightarrow> incoming w = concat (map ((#) SOH) fs) @ EOT # rest \<Longrightarrow> \<forall>f \<in> set fs. length f = 132 \<Longrightarrow>
    \<not> isDone l \<Longrightarrow> length (frame_buffer l) = 132 \<Longrightarrow>
    \<exists>l' w'. dbg_loop char_signed wire_read wire_write l w = Some (l', w') \<and>
      stdout l' = stdout l @ concat (map block_report fs) @ str ''EOT: '' @ newline \<and>
      incoming w' = rest \<and> sent w' = sent w @ replicate (length fs + 1) ACK"
proof (induction fs arbitrary: l w)
  case Nil
  then obtain w' where "dbg_step char_signed wire_read wire_write l w =
      Some (l\<lparr>stdout := stdout l @ str ''EOT: '' @ newline, isDone := True\<rparr>, w')"
    "incoming w' = rest" "sent w' = sent w @ [ACK]"
    using dbg_eot_round [of w rest char_signed l] by auto
  with Nil.prems(4) show ?case
    by (subst dbg_loop.simps) (simp, subst dbg_loop.simps, simp)
next
  case (Cons f fs)
  let ?l = "l\<lparr>frame_buffer := f, stdout := stdout l @ block_report f\<rparr>"
  have "incoming w = SOH # f @ (concat (map ((#) SOH) fs) @ EOT # rest)" "length f = 132"
    using Cons.prems(2,3) by simp_all
  from dbg_block_round [OF Cons.prems(1) this Cons.prems(5)] obtain w1 where
    step: "dbg_step char_signed wire_read wire_write l w = Some (?l, w1)"
    and w1: "incoming w1 = concat (map ((#) SOH) fs) @ EOT # rest" "sent w1 = sent w @ [ACK]" "wire_wf w1" by blast
  have loop: "dbg_loop char_signed wire_read wire_write l w = dbg_loop char_signed wire_read wire_write ?l w1"
    using step Cons.prems(4) by (subst dbg_loop.simps) simp
  have "\<forall>f \<in> set fs. length f = 132" "\<not> isDone ?l" "length (frame_buffer ?l) = 132"
    using Cons.prems(3,4) by simp_all
  from Cons.IH [OF w1(3,1) this] loop w1(2) show ?case by auto
qed

lemma dbg_main_blocks:
  assumes set: "serial_setup os (str ''/dev/ttyUSB0'') 115200 0 0 1 w0 = (fd, w)" "sint fd \<ge> 0"
    and wf: "wire_wf w" and inc: "incoming w = concat (map ((#) SOH) fs) @ EOT # rest"
    and fs: "\<forall>f \<in> set fs. length f = 132" and garbage: "length garbage = 132"
  shows "\<exists>w'. dbg_main char_signed os wire_read wire_write garbage w0 =
      Some (0, concat (map block_report fs) @ str ''EOT: '' @ newline, serial_close os fd w') \<and>
    incoming w' = rest \<and> sent w' = sent w @ char_C # replicate (length fs + 1) ACK"
proof -
  let ?w = "w\<lparr>sent := sent w @ [char_C]\<rparr>" and ?l = "\<lparr>isDone = False, frame_buffer = garbage, stdout = []\<rparr>"
  obtain l' w' where "dbg_loop char_signed wire_read wire_write ?l ?w = Some (l', w')"
    "stdout l' = concat (map block_report fs) @ str ''EOT: '' @ newline"
    "incoming w' = rest" "sent w' = sent ?w @ replicate (length fs + 1) ACK"
    using dbg_loop_blocks [of ?w fs rest ?l char_signed] wf inc fs garbage by auto
  with set show ?thesis
    by (intro exI [of _ w'])
      (simp add: dbg_main_def serial_send_char_def serial_write_def wire_write_def)
qed

text \<open>The blocks of a sender that uses 128 bytes and a CRC.\<close>

fun stream_frames :: "crc16_context \<Rightarrow> u8 \<Rightarrow> u8 list list \<Rightarrow> u8 list list" where
  "stream_frames ctx n [] = []"
| "stream_frames ctx n (ch # chs) = block_frame True ctx n (pad_block ch) # stream_frames ctx (n + 1) chs"

lemma stream_of_frames:
  "\<forall>ch \<in> set chs. length ch \<le> 128 \<Longrightarrow>
    tx_stream True ctx n chs = concat (map ((#) SOH) (stream_frames ctx n chs)) @ [EOT] \<and>
    (\<forall>f \<in> set (stream_frames ctx n chs). length f = 132) \<and>
    length (stream_frames ctx n chs) = length chs"
  by (induction chs arbitrary: n)
    (simp_all add: tx_frame_def length_block_frame length_pad_block block_size_def)

text \<open>A sender in the mode with CRC, for the witness.\<close>

definition demo_crc_mode :: "u8 list list \<Rightarrow> lmodem_buffer \<Rightarrow> wire modem_context" where
  "demo_crc_mode pieces rf = (demo pieces rf)\<lparr>opts := Lxmodem_128_with_crc, withCrc := True, blk_buffer :=
     \<lparr>line_buffer = replicate 133 0, line_current_size = 0, line_max_size = 133\<rparr>\<rparr>"

section \<open>Properties\<close>

text \<open>
  C22: The debug command takes a whole XMODEM transmission: a sender in the mode with CRC and 128
  byte blocks that reads what the command sends ends with success, and the command, reading what
  the sender sends, prints one report for each block, acknowledges each, ends at the EOT and exits
  with 0. Nothing of a block is checked: its number and CRC are printed, not compared.
\<close>

theorem dbg_serial_takes_transmission:
  assumes "on_wire c" and "tx_ready c" and "tx_block_mode c = (128, True)"
    and "lxmodem_decode_preambule c char_C" and "chs = chunks 128 (ram_unread (ramfile c))"
    and "incoming (world c) = char_C # replicate (length chs + 1) ACK @ rest_s"
    and "serial_setup os (str ''/dev/ttyUSB0'') 115200 0 0 1 w0 = (fd, w)" and "sint fd \<ge> 0"
    and "wire_wf w" and "incoming w = tx_stream True (crc16 c) 1 chs @ rest" and "length garbage = 132"
  shows "\<exists>c' w'. lxmodem_emit c = Some (word_of_nat (sum_list (map block_size chs)), c') \<and>
    incoming (world c') = rest_s \<and>
    sent (world c') = sent (world c) @ tx_stream True (crc16 c) 1 chs \<and>
    dbg_main char_signed os wire_read wire_write garbage w0 =
      Some (0, concat (map block_report (stream_frames (crc16 c) 1 chs)) @ str ''EOT: '' @ newline,
        serial_close os fd w') \<and>
    incoming w' = rest \<and> sent w' = sent w @ char_C # replicate (length chs + 1) ACK"
proof -
  have chs: "chs = chunks (unat (128 :: u32)) (ram_unread (ramfile c))" using assms(5) by simp
  have "\<forall>ch \<in> set chs. length ch \<le> 128" using chunks_set assms(5) by blast
  note frames = stream_of_frames [OF this, of "crc16 c" 1]
  have inc: "incoming w = concat (map ((#) SOH) (stream_frames (crc16 c) 1 chs)) @ EOT # rest"
    using assms(10) frames by simp
  from emit_wire [OF assms(1-3) chs assms(6,4)]
    dbg_main_blocks [OF assms(7-9) inc _ assms(11), of char_signed] frames
  show ?thesis by auto
qed

text \<open>A port of the kind \<open>wire\<close> that takes every line setting, for the witness.\<close>

definition wire_terminal :: "wire tty_calls" where
  "wire_terminal = \<lparr>tty_open = \<lambda>dev w. (3, w), tty_get = \<lambda>fd w. (Some plain_termios, w),
     tty_set = \<lambda>fd t w. (True, w), tty_flush = \<lambda>fd w. w, tty_close = \<lambda>fd w. w\<rparr>"

lemma wire_terminal_setup: "serial_setup wire_terminal dev b p r n w = (3, w)"
  by (simp add: serial_setup_def serial_set_interface_def wire_terminal_def sint_u32 Let_def)

theorem dbg_serial_takes_transmission_witness:
  "\<exists>c w'. lxmodem_emit (demo_crc_mode [[char_C], [ACK, ACK]] demo_file) = Some (128, c) \<and>
    dbg_main True wire_terminal wire_read wire_write (replicate 132 0)
        \<lparr>pending = [tx_stream True demo_table 1 [[8, 9]]], sent = []\<rparr> =
      Some (0, block_report (block_frame True demo_table 1 (pad_block [8, 9])) @ str ''EOT: '' @ newline, w') \<and>
    sent w' = [char_C, ACK, ACK]"
proof -
  let ?c = "demo_crc_mode [[char_C], [ACK, ACK]] demo_file"
  let ?w = "\<lparr>pending = [tx_stream True demo_table 1 [[8, 9]]], sent = []\<rparr> :: wire"
  have c: "on_wire ?c" "tx_ready ?c" "tx_block_mode ?c = (128, True)" "lxmodem_decode_preambule ?c char_C"
    "ramfile ?c = demo_file" "incoming (world ?c) = char_C # replicate (length [[8, 9 :: u8]] + 1) ACK @ []"
    "crc16 ?c = demo_table"
    by (simp_all add: demo_crc_mode_def demo_fields demo_crc on_wire_def wire_wf_def tx_ready_def tx_line_need_def
        tx_block_mode_def lxmodem_decode_preambule_def incoming_def demo_ready(3))
  have chs: "[[8, 9]] = chunks 128 (ram_unread (ramfile ?c))"
    unfolding c(5) demo_unread by (simp add: chunks_next)
  have w: "wire_wf ?w" "incoming ?w = tx_stream True (crc16 ?c) 1 [[8, 9]] @ []"
    unfolding c(7) by (simp_all add: wire_wf_def incoming_def)
  from dbg_serial_takes_transmission [OF c(1-4) chs c(6) wire_terminal_setup _ w, of "replicate 132 0" True,
      unfolded c(7)]
  obtain c' w' where "lxmodem_emit ?c = Some (word_of_nat (sum_list (map block_size [[8, 9 :: u8]])), c')"
    "dbg_main True wire_terminal wire_read wire_write (replicate 132 0) ?w =
      Some (0, block_report (block_frame True demo_table 1 (pad_block [8, 9])) @ str ''EOT: '' @ newline,
        serial_close wire_terminal 3 w')" "sent w' = [char_C, ACK, ACK]"
    by (auto simp: sint_u32)
  then show ?thesis by (auto simp: serial_close_def wire_terminal_def block_size_def)
qed

text \<open>
  C39: The checksum that the debug command prints for a block is not that of the block's data. When a
  block of the mode it asks for arrives, with 128 bytes of data and a CRC, a round of its loop prints
  the bytes and acknowledges the block; but the call in \<open>main\<close> sums 129 bytes behind the two number
  bytes, so what is printed as the checksum is that of the data plus the first byte of the CRC.
\<close>

theorem dbg_checksum_covers_crc_byte:
  assumes "wire_wf w" and "incoming w = SOH # block_frame True ctx n d @ rest" and "length d = 128"
    and "length (frame_buffer l) = 132"
  shows "\<exists>l' w'. dbg_step char_signed wire_read wire_write l w = Some (l', w') \<and>
    stdout l' = stdout l @ str ''SOH: '' @
      concat (map (\<lambda>b. str ''0x'' @ format_x2 b @ str ''-'') (block_frame True ctx n d)) @ newline @
      str ''chksum = 0x'' @ format_x2 (lxmodem_calcul_chksum d +
        crc_hi (crc16_doCalcul ctx d LXMODEM_CRC16_INIT_VALUE LXMODEM_CRC16_XOR_FINAL)) @ newline \<and>
    incoming w' = rest \<and> sent w' = sent w @ [ACK]"
proof -
  let ?f = "block_frame True ctx n d"
  have "length ?f = 132" using assms(3) by (simp add: length_block_frame)
  moreover have "take 129 (drop 2 ?f) = d @ [crc_hi (crc16_doCalcul ctx d LXMODEM_CRC16_INIT_VALUE LXMODEM_CRC16_XOR_FINAL)]"
    using assms(3) by (simp add: block_frame_def block_trailer_def)
  ultimately show ?thesis
    using dbg_block_round [OF assms(1,2) _ assms(4), of char_signed]
    by (auto simp: block_report_def lxmodem_calcul_chksum_def)
qed

text \<open>The witness: the data sum to 1, the CRC is \<open>0x1021\<close>, and \<open>0x11\<close> is printed.\<close>

lemma demo_crc_0x1021:
  "crc16_doCalcul demo_table (replicate 127 0 @ [1]) LXMODEM_CRC16_INIT_VALUE LXMODEM_CRC16_XOR_FINAL = 0x1021"
proof -
  have "crc_serial 0x1021 0 (replicate 127 0 @ [1]) = 0x1021" by code_simp
  then show ?thesis
    using demo_table_ready unfolding LXMODEM_CRC16_CCITT_POLYNOME_def
    by (simp only: crc16_doCalcul_serial) simp
qed

theorem dbg_checksum_covers_crc_byte_witness:
  "\<exists>l' w' out. dbg_step True wire_read wire_write
      \<lparr>isDone = False, frame_buffer = replicate 132 0, stdout = []\<rparr>
      \<lparr>pending = [SOH # block_frame True demo_table 1 (replicate 127 0 @ [1])], sent = []\<rparr> = Some (l', w') \<and>
    stdout l' = out @ str ''chksum = 0x11'' @ newline \<and> lxmodem_calcul_chksum (replicate 127 0 @ [1]) = 1"
proof -
  let ?d = "replicate 127 0 @ [1] :: u8 list"
  let ?w = "\<lparr>pending = [SOH # block_frame True demo_table 1 ?d], sent = []\<rparr> :: wire"
  have sum: "lxmodem_calcul_chksum ?d = 1" by code_simp
  have "wire_wf ?w" "incoming ?w = SOH # block_frame True demo_table 1 ?d @ []" "length ?d = 128"
    "length (frame_buffer \<lparr>isDone = False, frame_buffer = replicate 132 0, stdout = []\<rparr>) = 132"
    by (simp_all add: wire_wf_def incoming_def)
  note run = dbg_checksum_covers_crc_byte [OF this, of True, unfolded demo_crc_0x1021 sum]
  have "format_x2 (1 + crc_hi 0x1021) = str ''11''" by code_simp
  with run sum show ?thesis by (auto simp: str_def)
qed

text \<open>
  C40: The table of control codes is never left: for every character, on hosts with a signed and with
  an unsigned \<open>char\<close> alike, \<open>getCtrlCode\<close> returns the name that \<open>asciitable.h\<close> gives the character's
  value if it is below 32, and the empty string otherwise.
\<close>

theorem control_code_in_table:
  "getCtrlCode char_signed c = Some (if unat c < 32 then fst (asciitable ! unat c) else '''') \<and>
    map snd (take 32 asciitable) = map int [0..<32]"
proof -
  have table: "controlCode = map fst (take 32 asciitable)" "length asciitable = 33"
    by (simp_all add: controlCode_def asciitable_def)
  have "controlCode ! i = fst (asciitable ! i)" if "i < 32" for i
    unfolding table(1) using table(2) that by simp
  moreover have "map snd (take 32 asciitable) = map int [0..<32]"
    by (simp add: asciitable_def upt_rec)
  ultimately show ?thesis by (simp add: getCtrlCode_returns)
qed

end
