(* ===== verification/Spec2Isabelle.thy ===== *)
theory Spec2Isabelle
  imports Xmodem_Noise Ymodem_Faults Api Rzsz_Main Dbg_serial
begin

text \<open>
  A verification development for light_modem, an XMODEM and YMODEM library in C with the command
  \<open>rzsz\<close> that sends or receives one file over a serial port.

  \<^bold>\<open>The program.\<close> A caller owns a \<open>modem_context_t\<close> (\<open>include/lmodem.h\<close>): mode, CRC table, line
  buffer, RAM file, file metadata, and two callbacks for all input and output. \<open>lmodem_receive\<close> and
  \<open>lmodem_emit\<close> run one transfer to its end, synchronously; a read callback that fails is a timeout.
  The receiver speaks first (NAK or C), the sender answers with numbered blocks of 128 or 1024 bytes
  and a checksum or CRC, each block is acknowledged, EOT ends the file. YMODEM puts a block 0 with
  name and metadata in front, and an empty block 0 behind.

  \<^bold>\<open>How it is modelled.\<close> A stateful function is a HOL function on the context record that returns an
  \<open>option\<close>: \<open>None\<close> is the C program without a defined result (an access outside its buffer, a NULL
  callback, a loop that never ends), so \<open>f c = Some r\<close> says that \<open>f\<close> is memory safe and returns.
  The record has every field of the C structure and one more, the \<open>world\<close> on which the callbacks
  act. Machine integers are words; a counter that a guard stops (10 retries, 10 timeouts, 2 CAN, 3
  empty reads) is a natural number. A buffer is the list of the bytes of its object; its announced
  size is a separate field, as in the code. Loops are recursive functions over one round of their
  body: \<open>fun\<close> or \<open>function\<close> with a measure where a counter ends them, \<open>partial_function (option)\<close>
  where the line decides, and for these the theorems prove that there is a result. There is no fuel.

  \<^bold>\<open>The theories\<close>, in the order the code builds on itself:
  \<^item> \<open>Prelude\<close>: bounds-checked memory, word lemmas. \<open>Libc\<close>: \<open>strlen\<close>, \<open>strncpy\<close>, \<open>snprintf\<close> with \<open>%d\<close>
    and \<open>%o\<close>, \<open>strtoul\<close>, for a 64-bit host; printed numbers are read back.
  \<^item> \<open>Crc16\<close> (\<open>src/crc16.c\<close>): the CRC table and loop; they compute the bit-serial register, and detect
    any corruption inside two neighbouring bytes.
  \<^item> \<open>Lbuffer\<close> (\<open>src/lmodem_buffer.c\<close>): the RAM file; it is a bounded byte queue (locale \<open>byte_fifo\<close>).
  \<^item> \<open>Context\<close> (\<open>include/lmodem.h\<close>, \<open>src/lmodem_priv.h\<close>, \<open>src/lmodem_init.c\<close>): the context, its set-up,
    the metadata, the callbacks; the interface of a transfer to its line is the locale \<open>serial_line\<close>.
  \<^item> \<open>Serial\<close> (\<open>tools/serial.c\<close>): reading and writing the port. The read callback of the tool is a
    \<open>serial_line\<close> whatever the system calls return, so all of the following holds of it.
    \<open>Termios\<close> (\<open>tools/serial.c\<close>): opening the port and setting the line, as bits of the flag words of
    Linux; what the line is set to, and what the parity argument does to the speed.
  \<^item> \<open>Block\<close> (\<open>src/lmodem_rx.c\<close>): the check of one block; it accepts exactly the frames, and no frame
    becomes another one by one corrupted byte (locale \<open>integrity_check\<close>, for checksum and CRC).
  \<^item> \<open>Rx\<close> (\<open>src/lmodem_rx.c\<close>): the replies and \<open>lxmodem_receive\<close>, which refines the abstract receiver
    \<open>rx_spec_step\<close> and ends on every line; each round uses up room in the file or a retry.
  \<^item> \<open>Tx\<close> (\<open>src/lmodem_tx.c\<close>): the blocks, the waits and \<open>lxmodem_emit\<close>, which refines the abstract
    sender \<open>tx_spec_step\<close> and ends on every line; each round acknowledges a chunk or uses up a try.
    A step of that sender is labelled with the frame sent and the answer that came, so that a run is
    a list of rounds, which \<open>exchange\<close> replays on the port.
  \<^item> \<open>Ymodem_Rx\<close>, \<open>Ymodem_Tx\<close>: block 0, its metadata, \<open>lymodem_receive\<close>, \<open>lymodem_emit\<close> and the entry
    points \<open>lmodem_receive\<close>, \<open>lmodem_emit\<close>. \<open>Ymodem_Kept\<close>: what they leave unchanged if they return.
  \<^item> \<open>Api\<close> (\<open>include/lmodem.h\<close>): the public functions as calls in any order; the well-formedness of the
    context is an invariant, and every call but a YMODEM transfer returns.
  \<^item> \<open>Wire\<close>: a port that loses nothing, for runs of the program; \<open>Xmodem_Link\<close>, \<open>Ymodem_Link\<close>: a sender
    and a receiver over such ports, and the runs on lines that stay silent or refuse every block.
    \<open>Xmodem_Noise\<close>: an XMODEM transfer in which every block arrives corrupted up to nine times.
    \<open>Ymodem_Faults\<close>: the YMODEM runs that go wrong.
  \<^item> \<open>Rzsz\<close> (\<open>tools/rzsz.c\<close>): options, set-up and the two transfers of the tool. \<open>Rzsz_Main\<close>: its \<open>main\<close>
    from the command line to the exit code. \<open>Dbg_serial\<close> (\<open>tools/dbg_serial.c\<close>, \<open>tools/asciitable.h\<close>):
    the debug command.
  \<^item> This theory: the tool from end to end.

  \<^bold>\<open>Two programs.\<close> Sender and receiver are run each on its own port. The end-to-end theorems give the
  bytes \<open>a\<close> and \<open>b\<close> such that the sender, reading \<open>b\<close>, sends \<open>a\<close>, and the receiver, reading \<open>a\<close>, sends
  \<open>b\<close>: the two runs are one exchange. That neither waits for bytes the other has yet to be asked for
  is not stated, as the ports have no clock.

  \<^bold>\<open>Parameters.\<close> What is not under \<open>src/\<close> is an argument: the system calls of the port (\<open>read_call\<close>,
  \<open>write_call\<close>, \<open>tty_calls\<close>), \<open>malloc\<close>, \<open>stat\<close> and the contents of files (\<open>host_file\<close>), and the options
  \<open>getopt_long\<close> finds on the command line.

  \<^bold>\<open>Not modelled\<close>: the trace output (\<open>DBG\<close>), the progress and error messages of the tools, scripts and
  build files. The callbacks do not write to the context. \<open>snprintf\<close> with a size beyond \<open>INT_MAX\<close>
  (metadata that start behind the end of the buffer) is taken to write its whole text. Protocol
  numbers other than 0 and 1, which \<open>parse_options\<close> refuses, are taken for YMODEM.

  \<^bold>\<open>Still to do\<close>: that \<open>lymodem_receive\<close> ends on a line that keeps delivering bytes, and does not leave
  its buffers on a malformed block 0; the abstract contract of a YMODEM batch.
\<close>

section \<open>Properties\<close>

text \<open>
  C1: One file from \<open>rzsz --tx\<close> to \<open>rzsz --rx\<close> by XMODEM, in each of the three modes, from the two
  command lines to the two exit codes. The ports deliver the bytes in pieces of any size. The bytes
  the sender waits for are the bytes the receiver sends, and the other way round, so the two runs fit
  together; both exit with success, and the file written is the file sent followed by less than a
  block of SUB.
\<close>

theorem rzsz_main_transfer:
  assumes "parse_options at = Some (Some ot)" and "parse_options ar = Some (Some orx)"
    and "opt_tx ot = 1" and "opt_rx orx = 1" and "opt_protocol ot = 0" and "opt_protocol orx = 0"
    and "fst (main_opts ot) = op" and "fst (main_opts orx) = op"
    and "opt_device ot = Some dt" and "opt_device orx = Some dr"
    and "opt_filename ot = Some pt" and "opt_filename orx = Some pr"
    and "serial_setup os dt (opt_speed ot) (opt_parity ot) (opt_ctrl_flow ot) (opt_nb_stop ot) wt = (ft, w1)"
    and "serial_setup os dr (opt_speed orx) (opt_parity orx) (opt_ctrl_flow orx) (opt_nb_stop orx) wr = (fr, w2)"
    and "sint ft \<ge> 0" and "sint fr \<ge> 0" and "heap_ok heap"
    and "file_stat (files pt) = Some (word_of_nat (length contents), mtime, mode)"
    and "file_read (files pt) = Some contents" and "file_writable (files' pr)"
    and "chs = chunks (mode_block op) contents" and "sum_list (map block_size chs) < 1024 * 1024"
    and "wire_wf w1" and "sent w1 = []"
    and "incoming w1 = (if op = Lxmodem_128_with_chksum then NAK else char_C) # replicate (length chs + 1) ACK"
    and "wire_wf w2" and "sent w2 = []"
    and "incoming w2 = tx_stream (op \<noteq> Lxmodem_128_with_chksum) (crc16 (lmodem_init (xmodem_ctx w1) op)) 1 chs"
  shows "\<exists>w1' w2' k.
    rzsz_main os (\<lambda>_. wire_read) (\<lambda>_. wire_write) files heap buf at wt = Some (0, None, [], serial_close os ft w1') \<and>
    rzsz_main os (\<lambda>_. wire_read) (\<lambda>_. wire_write) files' heap buf ar wr =
      Some (0, Some (contents @ replicate k SUB), [], serial_close os fr w2') \<and> k < 1024 \<and>
    sent w1' = incoming w2 \<and> sent w2' = incoming w1 \<and> incoming w1' = [] \<and> incoming w2' = []"
proof -
  obtain mt mr where mem: "heap (unat (snd (main_opts ot))) = Some mt" "length mt = unat (snd (main_opts ot))"
    "heap (unat (snd (main_opts orx))) = Some mr" "length mr = unat (snd (main_opts orx))"
    using assms(17) by (metis heap_ok_def)
  obtain e where e: "main_setup ot wire_read wire_write mt (xmodem_ctx w1) = Some e"
    "crc16 e = crc16 (lmodem_init (xmodem_ctx w1) op)"
    using main_setup_returns [of ot wire_read wire_write mt "xmodem_ctx w1"] assms(7) by blast
  obtain r where r: "main_setup orx wire_read wire_write mr (xmodem_ctx w2) = Some r" "opts r = op" "protocol r = XMODEM"
    using main_setup_returns [of orx wire_read wire_write mr "xmodem_ctx w2"] assms(8) by blast
  have pre: "lxmodem_preambule_char r = (if op = Lxmodem_128_with_chksum then NAK else char_C)"
    using r(2,3) by (cases op) (simp_all add: lxmodem_preambule_char_def)
  have world: "world (xmodem_ctx w) = w" for w :: wire
    by (simp add: xmodem_ctx_def memset_context_def unset_context_def)
  obtain e' r' k where tx: "file_transmission ot (files pt) heap e = Some (0, e')"
    and rx: "file_reception orx (files' pr) buf r = Some (0, Some (contents @ replicate k SUB), [], r')" "k < 1024"
    and io: "sent (world e') = incoming w2" "sent (world r') = incoming w1" "incoming (world e') = []"
      "incoming (world r') = []"
    using rzsz_files_transfer [where buf = buf, OF assms(5-8) e(1) mem(2) r(1) mem(4) assms(21,22) _ _ _ _ _ _ assms(17-20)]
      pre e(2) assms(23-28) unfolding world by auto
  have flags: "opt_rx ot = 0" "opt_tx orx = 0"
    using parse_accepted [OF assms(1)] parse_accepted [OF assms(2)] assms(3,4) by auto
  have "rzsz_main os (\<lambda>_. wire_read) (\<lambda>_. wire_write) files heap buf at wt =
      Some (0, None, [], serial_close os ft (world e'))"
    using main_runs [where heap = heap and rd = "\<lambda>_. wire_read" and wr = "\<lambda>_. wire_write" and files = files and buf = buf,
      OF assms(1,9,11,13,15) mem(1)] e(1) tx flags assms(3)
    by simp
  moreover have "rzsz_main os (\<lambda>_. wire_read) (\<lambda>_. wire_write) files' heap buf ar wr =
      Some (0, Some (contents @ replicate k SUB), [], serial_close os fr (world r'))"
    using main_runs [where heap = heap and rd = "\<lambda>_. wire_read" and wr = "\<lambda>_. wire_write" and files = files' and buf = buf,
      OF assms(2,10,12,14,16) mem(3)] r(1) rx(1) flags assms(4)
    by simp
  ultimately show ?thesis using io rx(2) by blast
qed

text \<open>The command lines, the heap and the file of the witnesses.\<close>

abbreviation args_tx :: "(OPTS \<times> u8 list) list" where
  "args_tx \<equiv> [(OPTS_DEVICE, [0x64]), (OPTS_FILE, [0x66]), (OPTS_TX, [])]"

abbreviation args_rx :: "(OPTS \<times> u8 list) list" where
  "args_rx \<equiv> [(OPTS_DEVICE, [0x64]), (OPTS_FILE, [0x66]), (OPTS_RX, [])]"

abbreviation plain_heap :: "nat \<Rightarrow> u8 list option" where
  "plain_heap \<equiv> \<lambda>n. Some (replicate n 0)"

abbreviation hi_file :: "u8 list \<Rightarrow> host_file" where
  "hi_file \<equiv> \<lambda>p. \<lparr>file_stat = Some (2, 0, 0), file_read = Some [0x48, 0x69], file_writable = True\<rparr>"

lemma parse_args:
  "parse_options args_tx =
    Some (Some (options_zero\<lparr>opt_device := Some [0x64], opt_filename := Some [0x66], opt_tx := 1\<rparr>))"
  "parse_options args_rx =
    Some (Some (options_zero\<lparr>opt_device := Some [0x64], opt_filename := Some [0x66], opt_rx := 1\<rparr>))"
  by (simp_all add: parse_options_def options_valid_def options_zero_def)

theorem rzsz_main_transfer_witness:
  "\<exists>e r k. rzsz_main wire_terminal (\<lambda>_. wire_read) (\<lambda>_. wire_write) hi_file plain_heap [] args_tx
      \<lparr>pending = [[NAK], [ACK, ACK]], sent = []\<rparr> = Some (0, None, [], e) \<and>
    rzsz_main wire_terminal (\<lambda>_. wire_read) (\<lambda>_. wire_write) hi_file plain_heap [] args_rx
      \<lparr>pending = [sent e], sent = []\<rparr> = Some (0, Some ([0x48, 0x69] @ replicate k SUB), [], r)"
proof -
  let ?t = "options_zero\<lparr>opt_device := Some [0x64], opt_filename := Some [0x66], opt_tx := 1\<rparr>"
  let ?r = "options_zero\<lparr>opt_device := Some [0x64], opt_filename := Some [0x66], opt_rx := 1\<rparr>"
  let ?w1 = "\<lparr>pending = [[NAK], [ACK, ACK]], sent = []\<rparr> :: wire"
  let ?str = "tx_stream False (crc16 (lmodem_init (xmodem_ctx ?w1) Lxmodem_128_with_chksum)) 1 [[0x48, 0x69]]"
  let ?w2 = "\<lparr>pending = [?str], sent = []\<rparr> :: wire"
  have o: "opt_tx ?t = 1" "opt_rx ?r = 1" "opt_protocol ?t = 0" "opt_protocol ?r = 0"
    "fst (main_opts ?t) = Lxmodem_128_with_chksum" "fst (main_opts ?r) = Lxmodem_128_with_chksum"
    "opt_device ?t = Some [0x64]" "opt_device ?r = Some [0x64]"
    "opt_filename ?t = Some [0x66]" "opt_filename ?r = Some [0x66]"
    by (simp_all add: options_zero_def main_opts_def)
  have files: "file_stat (hi_file [0x66]) = Some (word_of_nat (length [0x48, 0x69 :: u8]), 0, 0)"
    "file_read (hi_file [0x66]) = Some [0x48, 0x69]" "file_writable (hi_file [0x66])" by simp_all
  have chs: "[[0x48, 0x69]] = chunks (mode_block Lxmodem_128_with_chksum) [0x48, 0x69 :: u8]"
    "sum_list (map block_size [[0x48, 0x69]]) < 1024 * 1024"
    by (simp_all add: mode_block_def chunks_next block_size_def)
  have w: "wire_wf ?w1" "sent ?w1 = []" "incoming ?w1 =
      (if Lxmodem_128_with_chksum = Lxmodem_128_with_chksum then NAK else char_C) # replicate (length [[0x48, 0x69 :: u8]] + 1) ACK"
    "wire_wf ?w2" "sent ?w2 = []" "incoming ?w2 = tx_stream (Lxmodem_128_with_chksum \<noteq> Lxmodem_128_with_chksum)
      (crc16 (lmodem_init (xmodem_ctx ?w1) Lxmodem_128_with_chksum)) 1 [[0x48, 0x69]]"
    by (simp_all add: wire_wf_def incoming_def)
  have heap: "heap_ok plain_heap" "sint (3 :: u32) \<ge> 0" by (simp_all add: heap_ok_def sint_u32)
  obtain e r k where
    "rzsz_main wire_terminal (\<lambda>_. wire_read) (\<lambda>_. wire_write) hi_file plain_heap [] args_tx ?w1 =
      Some (0, None, [], serial_close wire_terminal 3 e)" "sent e = incoming ?w2"
    "rzsz_main wire_terminal (\<lambda>_. wire_read) (\<lambda>_. wire_write) hi_file plain_heap [] args_rx ?w2 =
      Some (0, Some ([0x48, 0x69] @ replicate k SUB), [], serial_close wire_terminal 3 r)"
    using rzsz_main_transfer [OF parse_args o wire_terminal_setup wire_terminal_setup heap(2,2,1) files chs w, of "[]"]
    by blast
  moreover have "incoming ?w2 = ?str" by (simp add: incoming_def)
  ultimately show ?thesis by (auto simp: serial_close_def wire_terminal_def)
qed

text \<open>
  C16: \<open>rzsz\<close> with XMODEM always exits. Whatever the port does, from the command line to the exit code
  the tool stays inside its buffers and comes to its end, with 0 or 1. A reception that exits with
  0 has written whole blocks; one that exits with 1 leaves the file empty, as it was emptied before
  the transfer began, or untouched if it could not be opened.
\<close>

theorem rzsz_main_exits:
  assumes "parse_options args = Some (Some o1)" and "opt_protocol o1 = 0" and "heap_ok heap"
    and "\<forall>p. host_ok (files p)"
  shows "\<exists>code out w'. rzsz_main os rd wr files heap buf args w = Some (code, out, [], w') \<and>
    (code = 0 \<or> code = 1) \<and>
    (out = None \<or> opt_rx o1 = 1 \<and> code = 1 \<and> out = Some [] \<or>
     opt_rx o1 = 1 \<and> code = 0 \<and>
       (\<exists>blocks. out = Some (concat blocks) \<and> (\<forall>b \<in> set blocks. length b = 128 \<or> length b = 1024)))"
proof -
  note acc = parse_accepted [OF assms(1)]
  obtain dev path where o1: "opt_device o1 = Some dev" "opt_filename o1 = Some path" using acc by auto
  obtain fd w1 where set: "serial_setup os dev (opt_speed o1) (opt_parity o1) (opt_ctrl_flow o1) (opt_nb_stop o1) w = (fd, w1)"
    by (cases "serial_setup os dev (opt_speed o1) (opt_parity o1) (opt_ctrl_flow o1) (opt_nb_stop o1) w")
  show ?thesis
  proof (cases "sint fd < 0")
    case True
    then show ?thesis using assms(1) o1 set by (simp add: rzsz_main_def)
  next
    case False
    obtain mem where mem: "heap (unat (snd (main_opts o1))) = Some mem" "length mem = unat (snd (main_opts o1))"
      using assms(3) by (auto simp: heap_ok_def)
    obtain m where m: "main_setup o1 (rd fd) (wr fd) mem (xmodem_ctx w1) = Some m"
      using main_setup_returns by blast
    note run = main_runs [where heap = heap and rd = rd and wr = wr and files = files and buf = buf, OF assms(1) o1 set _ mem(1) m]
    obtain code out c' where rx: "file_reception o1 (files path) buf m = Some (code, out, [], c')"
      "if \<not> file_writable (files path) then code = 1 \<and> out = None
       else code = 0 \<and> (\<exists>blocks. out = Some (concat blocks) \<and> (\<forall>b \<in> set blocks. length b = 128 \<or> length b = 1024)) \<or>
         code = 1 \<and> out = Some []"
      using file_reception_ends [OF assms(2) mem(2) m] by blast
    obtain code' c'' where tx: "file_transmission o1 (files path) heap m = Some (code', c'')" "code' = 0 \<or> code' = 1"
      using file_transmission_ends [OF assms(2) mem(2) m assms(3)] assms(4) by blast
    consider "opt_tx o1 = 1" "opt_rx o1 = 0" | "opt_tx o1 = 0" "opt_rx o1 = 1" using acc by blast
    then show ?thesis
      using run False rx tx by cases (auto split: if_splits)
  qed
qed

theorem rzsz_main_exits_witness:
  "\<exists>code out w'. rzsz_main one_terminal (\<lambda>fd w n. (None, w)) (\<lambda>fd w data. (None, w)) hi_file plain_heap [] args_rx
      plain_termios = Some (code, out, [], w') \<and> (code = 0 \<or> code = 1)"
proof -
  have "heap_ok plain_heap" "\<forall>p. host_ok (hi_file p)"
    "opt_protocol (options_zero\<lparr>opt_device := Some [0x64], opt_filename := Some [0x66], opt_rx := 1\<rparr>) = 0"
    by (simp_all add: heap_ok_def host_ok_def options_zero_def)
  from rzsz_main_exits [OF parse_args(2) this(3,1,2), of one_terminal "\<lambda>fd w n. (None, w)" "\<lambda>fd w data. (None, w)"
      "[]" plain_termios]
  show ?thesis by blast
qed

text \<open>
  C27: The set-up of the tool always succeeds, and the line buffer that \<open>main\<close> allocates is large
  enough: for every well-formed file the context is ready to receive, by XMODEM and YMODEM, and to
  send the data blocks of both.
\<close>

theorem main_setup_fits:
  assumes "length buf = unat (snd (main_opts o1))" and "ram_wf rf"
  shows "\<exists>m. main_setup o1 rd wr buf c = Some m \<and>
    rx_ready (m\<lparr>ramfile := rf, protocol := main_protocol o1\<rparr>) \<and>
    tx_ready (m\<lparr>ramfile := rf, protocol := main_protocol o1\<rparr>)"
  using assms by (rule main_setup_ready)

theorem main_setup_fits_witness:
  "\<exists>m. main_setup options_zero wire_read wire_write (replicate 132 0) (unset_context \<lparr>pending = [], sent = []\<rparr>) = Some m \<and>
    tx_ready (m\<lparr>ramfile := \<lparr>ram_buffer = [], ram_read_offset = 0, ram_write_offset = 0, ram_max_size = 0\<rparr>,
      protocol := XMODEM\<rparr>)"
  using main_setup_fits [of "replicate 132 0" options_zero
      "\<lparr>ram_buffer = [], ram_read_offset = 0, ram_write_offset = 0, ram_max_size = 0\<rparr>" wire_read wire_write "unset_context \<lparr>pending = [], sent = []\<rparr>"]
  by (auto simp: main_opts_def options_zero_def ram_wf_def main_protocol_def)

text \<open>
  C32: \<open>rzsz --tx\<close> with YMODEM overruns its line buffer. \<open>main\<close> allocates exactly the announced 1029
  bytes, so as soon as the receiver asks for the file, building block 0 stores a byte past the end:
  the program has no defined behaviour, whatever the file, as long as its path has a slash.
\<close>

theorem rzsz_ymodem_send_overruns:
  assumes "opt_protocol o1 = 1" and "length buf = unat (snd (main_opts o1))"
    and "main_setup o1 wire_read wr buf c = Some m"
    and "opt_filename o1 = Some path" and "after_last_slash path = Some name" and "is_text name"
    and "wire_wf (world c)" and "incoming (world c) = char_C # rest"
  shows "do_file_transmission o1 contents mtime mode m = None"
proof -
  have size: "snd (main_opts o1) = 1029" using assms(1) by (simp add: main_opts_def)
  obtain m' where m': "main_setup o1 wire_read wr buf c = Some m'"
    "blk_buffer m' = \<lparr>line_buffer = buf, line_current_size = 0, line_max_size = snd (main_opts o1)\<rparr>"
    "getchar_cb m' = Some wire_getchar" "world m' = world c"
    using main_setup_returns [of o1 wire_read wr buf c] by blast
  have fb: "filename (file_data m) = Some (replicate 256 0)" "filename_size (file_data m) = 256"
    using assms(3) by (auto simp: main_setup_def lmodem_set_filename_buffer_def lmodem_set_getchar_cb_def
        lmodem_set_putchar_cb_def Let_def split: prod.splits if_splits)
  let ?n = "word_of_nat (length contents) :: u32"
  let ?c0 = "lmodem_set_file_buffer m contents ?n"
  let ?c1 = "?c0\<lparr>ramfile := snd (lmodem_buffer_set_write_offset (ramfile ?c0) ?n)\<rparr>"
  have fd: "filename (file_data ?c1) = Some (replicate 256 0)" "unat (filename_size (file_data ?c1)) = 256"
    using fb by (simp_all add: lmodem_set_file_buffer_def)
  obtain fbuf v where name: "lmodem_metadata_set_filename ?c1 (name @ [0]) =
      Some (?c1\<lparr>file_data := (file_data ?c1)\<lparr>filename := fbuf, valid := v OR LMODEM_METADATA_FILENAME_VALID\<rparr>\<rparr>)"
    using set_filename_returns [OF assms(6) fd, of "[]"] by auto
  define c2 where "c2 = lmodem_metadata_set_serial (lmodem_metadata_set_permission (lmodem_metadata_set_modif_time
      (lmodem_metadata_set_filesize (?c1\<lparr>file_data := (file_data ?c1)\<lparr>filename := fbuf,
        valid := v OR LMODEM_METADATA_FILENAME_VALID\<rparr>\<rparr>) ?n) mtime) mode) 0"
  have c2: "blk_buffer c2 = blk_buffer m" "getchar_cb c2 = getchar_cb m" "world c2 = world m" "filename_valid c2"
    unfolding filename_valid_def filename_flag
    by (simp_all add: c2_def metadata_defs even_or_iff lmodem_set_file_buffer_def
        LMODEM_METADATA_FILENAME_VALID_def)
  let ?c3 = "c2\<lparr>protocol := YMODEM\<rparr>"
  have c3: "getchar_cb ?c3 = Some wire_getchar" "wire_wf (world ?c3)" "incoming (world ?c3) = char_C # rest"
    using c2 m' assms(3,7,8) by simp_all
  obtain w where w: "lmodem_getchar_byte ?c3 = Some (Some char_C, ?c3\<lparr>world := w\<rparr>)"
    using wire_getchar_byte [OF c3] by blast
  let ?c4 = "?c3\<lparr>world := w\<rparr>"
  have "lmodem_wait_reception_of ?c3 char_C = Some (True, ?c4)"
    using w by (simp add: lmodem_wait_reception_of_def wait_reception_of.simps)
  moreover have "lymodem_build_and_send_block0 ?c4 = None"
    using build_block0_exact [of ?c4] c2 m' assms(2,3) by (simp add: filename_valid_def)
  ultimately have "lymodem_emit ?c3 = None" by (simp add: lymodem_emit_def)
  then show ?thesis
    using assms(1,4,5) name
    by (simp add: do_file_transmission_def main_protocol_def Let_def case_prod_beta c2_def lmodem_emit_def)
qed

theorem rzsz_ymodem_send_overruns_witness:
  "\<exists>m. main_setup (options_zero\<lparr>opt_protocol := 1, opt_filename := Some [0x2F, 0x61]\<rparr>) wire_read wire_write
      (replicate 1029 0) ((unset_context \<lparr>pending = [], sent = []\<rparr>)\<lparr>world := \<lparr>pending = [[char_C]], sent = []\<rparr>\<rparr>) = Some m \<and>
    do_file_transmission (options_zero\<lparr>opt_protocol := 1, opt_filename := Some [0x2F, 0x61]\<rparr>) [7] 0 0 m = None"
proof -
  let ?o = "options_zero\<lparr>opt_protocol := 1, opt_filename := Some [0x2F, 0x61]\<rparr>"
    and ?c = "(unset_context \<lparr>pending = [], sent = []\<rparr>)\<lparr>world := \<lparr>pending = [[char_C]], sent = []\<rparr>\<rparr>"
  obtain m where m: "main_setup ?o wire_read wire_write (replicate 1029 0) ?c = Some m"
    using main_setup_returns by blast
  have o: "opt_protocol ?o = 1" "length (replicate 1029 0 :: u8 list) = unat (snd (main_opts ?o))"
    "opt_filename ?o = Some [0x2F, 0x61]" "after_last_slash [0x2F, 0x61] = Some [0x61]" "is_text [0x61]"
    "wire_wf (world ?c)" "incoming (world ?c) = char_C # []"
    by (simp_all add: options_zero_def main_opts_def is_text_def wire_wf_def incoming_def)
  from rzsz_ymodem_send_overruns [OF o(1,2) m o(3-7)] m show ?thesis by blast
qed

end
